theory Spec2Isabelle
  imports Complex_Main
begin

section \<open>FLAPSTER: the simulation core of \<open>script.js\<close>\<close>

text \<open>
  The development follows the sections of the source: configuration, state, game objects,
  collision detection, the per-frame update, input handling and boot/reset. Drawing code
  reads the state and never writes it, so it is left out.

  Numbers. JavaScript numbers are IEEE doubles. Values that the program only ever counts
  with (the score, the wing frame) are modelled as \<open>int\<close>/\<open>nat\<close>; coordinates, velocities
  and times are rationals (\<open>rat\<close>). Where a property speaks of the very value that an
  operation returns, or of a comparison at a boundary, the operation carries the rounding
  of double arithmetic (\<open>jsAdd\<close>, \<open>jsSub\<close>, \<open>jsMul\<close>): that is so throughout \<open>createPipe\<close>
  and \<open>checkCollision\<close>. The bird physics, the pipe movement, the clouds and the timers
  are computed exactly, and every decimal literal there (\<open>0.42\<close>, \<open>2.6\<close>, \<open>-8.5\<close>) is the
  rational it denotes. \<open>NaN\<close> is modelled only where the program can produce it
  (\<open>parseInt\<close>).

  Environment. \<open>performance.now()\<close> and \<open>Math.random()\<close> are passed in as the arguments
  \<open>now\<close> and \<open>rnd\<close>; \<open>localStorage\<close> and the pending \<open>setTimeout\<close> callbacks are fields of
  the state.
\<close>

subsection \<open>\<section>1 Configuration (\<open>CFG\<close>)\<close>

definition W :: rat where "W = 400"
definition H :: rat where "H = 600"
definition BIRD_X :: rat where "BIRD_X = 90"
definition BIRD_RADIUS :: rat where "BIRD_RADIUS = 14"
definition JUMP_VEL :: rat where "JUMP_VEL = - 8.5"
definition GRAVITY :: rat where "GRAVITY = 0.42"
definition MAX_FALL_VEL :: rat where "MAX_FALL_VEL = 12"
definition TILT_UP :: rat where "TILT_UP = - 25"
definition TILT_DOWN :: rat where "TILT_DOWN = 70"
definition PIPE_W :: rat where "PIPE_W = 58"
definition PIPE_GAP :: rat where "PIPE_GAP = 148"
definition PIPE_SPEED :: rat where "PIPE_SPEED = 2.6"
definition PIPE_SPAWN_X :: rat where "PIPE_SPAWN_X = 420"
definition PIPE_INTERVAL :: rat where "PIPE_INTERVAL = 1700"
definition GROUND_H :: rat where "GROUND_H = 80"
definition GROUND_Y :: rat where "GROUND_Y = 520"
definition WING_FRAMES :: nat where "WING_FRAMES = 3"
definition WING_SPEED :: rat where "WING_SPEED = 120"
definition SCORE_X_THRESHOLD :: rat where "SCORE_X_THRESHOLD = 90"

subsection \<open>\<section>2 State\<close>

datatype phase = START | PLAYING | DEAD

record bird =
  bird_x :: rat
  bird_y :: rat
  vy :: rat
  angle :: rat
  wingFrame :: nat
  wingTimer :: rat
  alive :: bool
  deathY :: rat
  deathVY :: rat

record pipe =
  pipe_x :: rat
  gapTop :: rat
  gapBot :: rat
  scored :: bool

record cloud =
  cloud_x :: rat
  cloud_y :: rat
  cloud_scale :: rat
  cloud_speed :: rat

text \<open>
  \<open>bestScore\<close> is the result of \<open>parseInt\<close> or a copy of the score: an integer or \<open>NaN\<close>
  (\<open>None\<close>). \<open>storage\<close> is \<open>localStorage\<close> as the list of its entries, the latest
  \<open>setItem\<close> first, so that a write is visible even when it repeats a value.
  \<open>timers\<close> holds the due times of the \<open>resetGame\<close> callbacks scheduled by \<open>setTimeout\<close>
  that have not run yet. \<open>groundScroll\<close> is the module-level variable of that name.
\<close>

record game_state =
  phase :: phase
  bird :: bird
  pipes :: "pipe list"
  clouds :: "cloud list"
  score :: int
  bestScore :: "int option"
  lastPipeTime :: rat
  groundScroll :: rat
  storage :: "(string \<times> string) list"
  timers :: "rat list"

definition getItem :: "(string \<times> string) list \<Rightarrow> string \<Rightarrow> string option" where
  "getItem st k = map_of st k"

definition setItem :: "string \<Rightarrow> string \<Rightarrow> (string \<times> string) list \<Rightarrow> (string \<times> string) list" where
  "setItem k v st = (k, v) # st"

text \<open>
  \<open>parseInt(s, 10)\<close>: skip leading white space, read an optional sign, then the longest
  prefix of decimal digits; no digit gives \<open>NaN\<close>. Characters are the 8-bit \<open>char\<close>s of
  HOL, so the white space of the model is TAB, LF, VT, FF, CR, SP and NBSP.
\<close>

definition isWhiteSpace :: "char \<Rightarrow> bool" where
  "isWhiteSpace c = ((of_char c :: nat) \<in> {9, 10, 11, 12, 13, 32, 160})"

definition isDigit :: "char \<Rightarrow> bool" where
  "isDigit c = (48 \<le> (of_char c :: nat) \<and> (of_char c :: nat) \<le> 57)"

definition digitValue :: "char \<Rightarrow> int" where
  "digitValue c = int (of_char c) - 48"

definition parseInt :: "string \<Rightarrow> int option" where
  "parseInt s =
     (let S = dropWhile isWhiteSpace s;
          sign = (if S \<noteq> [] \<and> hd S = CHR ''-'' then - 1 else 1 :: int);
          S1 = (if S \<noteq> [] \<and> (hd S = CHR ''+'' \<or> hd S = CHR ''-'') then tl S else S);
          Z = takeWhile isDigit S1
      in if Z = [] then None
         else Some (sign * foldl (\<lambda>a c. 10 * a + digitValue c) 0 Z))"

text \<open>\<open>String(n)\<close> for an integer \<open>n\<close>: its decimal digits, with a minus sign if negative.\<close>

fun digits :: "nat \<Rightarrow> string" where
  "digits n = (if n < 10 then [char_of (48 + n)]
               else digits (n div 10) @ [char_of (48 + n mod 10)])"

declare digits.simps [simp del]

definition String :: "int \<Rightarrow> string" where
  "String n = (if n < 0 then CHR ''-'' # digits (nat (- n)) else digits (nat n))"

text \<open>
  The initialiser of \<open>state.bestScore\<close>:
  \<open>parseInt(localStorage.getItem('flapster_best') || '0', 10)\<close>. \<open>||\<close> replaces \<open>null\<close>
  (no entry) and the empty string, the two falsy results of \<open>getItem\<close>, by \<open>'0'\<close>.
\<close>

definition loadBest :: "(string \<times> string) list \<Rightarrow> int option" where
  "loadBest st =
     parseInt (case getItem st ''flapster_best'' of
                 None \<Rightarrow> ''0''
               | Some v \<Rightarrow> if v = [] then ''0'' else v)"

subsection \<open>Double-precision arithmetic\<close>

text \<open>
  \<open>fl x\<close> is the IEEE 754 binary64 number nearest to the rational \<open>x\<close>, ties going to
  the even significand: \<open>expo x\<close> is the exponent \<open>e\<close> with \<open>2 powi e \<le> x < 2 powi (e + 1)\<close>,
  \<open>ulp x\<close> the spacing of the doubles around \<open>x\<close> (with the exponent held at \<open>-1022\<close> for
  subnormal numbers), and \<open>rne\<close> rounds a rational to the nearest integer, ties to even.
  Overflow to infinity is not modelled: every coordinate of the game stays far below
  \<open>2 ^ 1024\<close>.
  \<open>jsAdd\<close>, \<open>jsSub\<close> and \<open>jsMul\<close> are the operators \<open>+\<close>, \<open>-\<close> and \<open>*\<close> of JavaScript on such
  numbers; comparisons, \<open>Math.max\<close> and \<open>Math.min\<close> are exact.
\<close>

definition rne :: "rat \<Rightarrow> int" where
  "rne q =
     (let f = \<lfloor>q\<rfloor>; r = q - of_int f
      in if r < 1 / 2 then f
         else if 1 / 2 < r then f + 1
         else if even f then f else f + 1)"

function expo :: "rat \<Rightarrow> int" where
  "expo x =
     (if x \<le> 0 then 0
      else if x < 1 then expo (2 * x) - 1
      else if 2 \<le> x then expo (x / 2) + 1
      else 0)"
  by pat_completeness auto
termination
proof (relation "measure (\<lambda>x. if x < 1 then nat \<lfloor>1 / x\<rfloor> + 2 else nat \<lfloor>x\<rfloor>)", goal_cases)
  case 1
  then show ?case by simp
next
  case (2 x)
  then have x: "0 < x" "x < 1" by simp_all
  show ?case
  proof (cases "2 * x < 1")
    case True
    have "1 / (2 * x) \<le> 1 / x - 1"
      using x True by (simp add: field_simps)
    then have "\<lfloor>1 / (2 * x)\<rfloor> \<le> \<lfloor>1 / x - 1\<rfloor>" by (rule floor_mono)
    moreover have "0 \<le> \<lfloor>1 / (2 * x)\<rfloor>" using x by simp
    ultimately show ?thesis using x True by simp
  next
    case False
    then have "\<lfloor>2 * x\<rfloor> = 1" using x by (simp add: floor_eq_iff)
    then show ?thesis using x False by simp
  qed
next
  case (3 x)
  then have x: "2 \<le> x" by simp
  have "x / 2 \<le> x - 1" using x by simp
  then have "\<lfloor>x / 2\<rfloor> \<le> \<lfloor>x - 1\<rfloor>" by (rule floor_mono)
  moreover have "0 \<le> \<lfloor>x / 2\<rfloor>" using x by simp
  ultimately show ?case using x by simp
qed

declare expo.simps [simp del]

definition ulp :: "rat \<Rightarrow> rat" where
  "ulp x = 2 powi (max (expo \<bar>x\<bar>) (- 1022) - 52)"

definition fl :: "rat \<Rightarrow> rat" where
  "fl x = of_int (rne (x / ulp x)) * ulp x"

definition jsAdd :: "rat \<Rightarrow> rat \<Rightarrow> rat" where
  "jsAdd a b = fl (a + b)"

definition jsSub :: "rat \<Rightarrow> rat \<Rightarrow> rat" where
  "jsSub a b = fl (a - b)"

definition jsMul :: "rat \<Rightarrow> rat \<Rightarrow> rat" where
  "jsMul a b = fl (a * b)"

text \<open>A rational is a double when it is a whole multiple of the spacing around it.\<close>

definition isDouble :: "rat \<Rightarrow> bool" where
  "isDouble d = (of_int \<lfloor>d / ulp d\<rfloor> = d / ulp d)"

subsection \<open>\<section>4 Game objects\<close>

definition createBird :: bird where
  "createBird =
     \<lparr> bird_x = BIRD_X, bird_y = 260, vy = 0, angle = 0, wingFrame = 0, wingTimer = 0,
       alive = True, deathY = 0, deathVY = 0 \<rparr>"

text \<open>\<open>createPipe\<close>, with the value \<open>rnd\<close> of \<open>Math.random()\<close> (\<open>0 \<le> rnd < 1\<close>).\<close>

definition createPipe :: "rat \<Rightarrow> pipe" where
  "createPipe rnd =
     (let minTop = 60;
          maxTop = jsSub (jsSub GROUND_Y PIPE_GAP) 60;
          gt = jsAdd minTop (jsMul rnd (jsSub maxTop minTop))
      in \<lparr> pipe_x = PIPE_SPAWN_X, gapTop = gt, gapBot = jsAdd gt PIPE_GAP,
           scored = False \<rparr>)"

definition generateClouds :: "cloud list" where
  "generateClouds =
     [ \<lparr> cloud_x = 50, cloud_y = 90, cloud_scale = 1.1, cloud_speed = 0.3 \<rparr>,
       \<lparr> cloud_x = 200, cloud_y = 130, cloud_scale = 0.8, cloud_speed = 0.5 \<rparr>,
       \<lparr> cloud_x = 310, cloud_y = 80, cloud_scale = 1.3, cloud_speed = 0.25 \<rparr>,
       \<lparr> cloud_x = 130, cloud_y = 200, cloud_scale = 0.7, cloud_speed = 0.4 \<rparr> ]"

subsection \<open>\<section>5 Collision detection\<close>

text \<open>
  One pass of the \<open>for (const pipe of pipes)\<close> loop of \<open>checkCollision\<close>: the circle
  against the top rectangle, then against the bottom rectangle.
\<close>

definition hitsTop :: "rat \<Rightarrow> rat \<Rightarrow> pipe \<Rightarrow> bool" where
  "hitsTop bx by p =
     (let px = pipe_x p; pw = PIPE_W;
          nearTopX = max px (min bx (jsAdd px pw));
          nearTopY = max 0 (min by (gapTop p));
          dTopX = jsSub bx nearTopX;
          dTopY = jsSub by nearTopY
      in jsAdd (jsMul dTopX dTopX) (jsMul dTopY dTopY) < jsMul BIRD_RADIUS BIRD_RADIUS)"

definition hitsBot :: "rat \<Rightarrow> rat \<Rightarrow> pipe \<Rightarrow> bool" where
  "hitsBot bx by p =
     (let px = pipe_x p; pw = PIPE_W;
          nearBotX = max px (min bx (jsAdd px pw));
          nearBotY = max (gapBot p) (min by GROUND_Y);
          dBotX = jsSub bx nearBotX;
          dBotY = jsSub by nearBotY
      in jsAdd (jsMul dBotX dBotX) (jsMul dBotY dBotY) < jsMul BIRD_RADIUS BIRD_RADIUS)"

fun hitsPipes :: "rat \<Rightarrow> rat \<Rightarrow> pipe list \<Rightarrow> bool" where
  "hitsPipes bx by [] = False"
| "hitsPipes bx by (p # ps) =
     (if hitsTop bx by p then True
      else if hitsBot bx by p then True
      else hitsPipes bx by ps)"

definition checkCollision :: "bird \<Rightarrow> pipe list \<Rightarrow> bool" where
  "checkCollision b ps =
     (let bx = bird_x b; by = bird_y b; br = BIRD_RADIUS
      in if jsAdd by br \<ge> GROUND_Y then True
         else if jsSub by br \<le> 0 then True
         else hitsPipes bx by ps)"

subsection \<open>\<section>6 Core game loop\<close>

text \<open>
  \<open>killBird\<close>. \<open>state.score > state.bestScore\<close> is false when \<open>bestScore\<close> is \<open>NaN\<close>.
\<close>

definition killBird :: "game_state \<Rightarrow> game_state" where
  "killBird s =
     (let s1 = s\<lparr> bird := (bird s)\<lparr> alive := False \<rparr>, phase := DEAD \<rparr>
      in if (case bestScore s1 of None \<Rightarrow> False | Some b \<Rightarrow> score s1 > b)
         then s1\<lparr> bestScore := Some (score s1),
                  storage := setItem ''flapster_best'' (String (score s1)) (storage s1) \<rparr>
         else s1)"

text \<open>The blocks of \<open>update\<close>, in the order of the source.\<close>

definition birdPhysics :: "rat \<Rightarrow> bird \<Rightarrow> bird" where
  "birdPhysics dt b =
     (let b1 = b\<lparr> vy := min (vy b + GRAVITY) MAX_FALL_VEL \<rparr>;
          b2 = b1\<lparr> bird_y := bird_y b1 + vy b1 \<rparr>;
          targetAngle = max TILT_UP (min TILT_DOWN (vy b2 * 4));
          b3 = b2\<lparr> angle := angle b2 + (targetAngle - angle b2) * 0.18 \<rparr>;
          b4 = b3\<lparr> wingTimer := wingTimer b3 + dt \<rparr>
      in if wingTimer b4 \<ge> WING_SPEED
         then b4\<lparr> wingFrame := (wingFrame b4 + 1) mod WING_FRAMES, wingTimer := 0 \<rparr>
         else b4)"

definition cloudScroll :: "cloud \<Rightarrow> cloud" where
  "cloudScroll c =
     (let c1 = c\<lparr> cloud_x := cloud_x c - cloud_speed c \<rparr>
      in if cloud_x c1 < - 150 then c1\<lparr> cloud_x := W + 80 \<rparr> else c1)"

definition spawnPipe :: "rat \<Rightarrow> rat \<Rightarrow> game_state \<Rightarrow> game_state" where
  "spawnPipe now rnd s =
     (if now - lastPipeTime s \<ge> PIPE_INTERVAL
      then s\<lparr> pipes := pipes s @ [createPipe rnd], lastPipeTime := now \<rparr>
      else s)"

text \<open>
  The body of the pipe loop at index \<open>i\<close>, statement by statement: the move, the score
  test, the removal test. \<open>splice1 i\<close> is \<open>pipes.splice(i, 1)\<close>.
\<close>

datatype error = TypeError

definition movePipe :: "pipe \<Rightarrow> pipe" where
  "movePipe p = p\<lparr> pipe_x := pipe_x p - PIPE_SPEED \<rparr>"

definition shouldScore :: "pipe \<Rightarrow> bool" where
  "shouldScore p = (\<not> scored p \<and> pipe_x p + PIPE_W < BIRD_X)"

definition offScreen :: "pipe \<Rightarrow> bool" where
  "offScreen p = (pipe_x p + PIPE_W < - 20)"

definition splice1 :: "nat \<Rightarrow> 'a list \<Rightarrow> 'a list" where
  "splice1 i xs = take i xs @ drop (Suc i) xs"

definition moveAndScore :: "nat \<Rightarrow> pipe list \<times> int \<Rightarrow> pipe list \<times> int" where
  "moveAndScore i st =
     (let ps = fst st; sc = snd st;
          ps1 = ps[i := movePipe (ps ! i)]
      in if shouldScore (ps1 ! i)
         then (ps1[i := (ps1 ! i)\<lparr> scored := True \<rparr>], sc + 1)
         else (ps1, sc))"

definition removeOffScreen :: "nat \<Rightarrow> pipe list \<times> int \<Rightarrow> pipe list \<times> int" where
  "removeOffScreen i st =
     (let ps = fst st; sc = snd st
      in if offScreen (ps ! i) then (splice1 i ps, sc) else (ps, sc))"

text \<open>
  \<open>pipeLoop n (pipes, score)\<close> runs the iterations \<open>i = n - 1, \<dots>, 0\<close> of
  \<open>for (let i = pipes.length - 1; i >= 0; i--)\<close>. Reading \<open>pipes[i].x\<close> at an index
  outside the array throws a \<open>TypeError\<close>.
\<close>

fun pipeLoop :: "nat \<Rightarrow> pipe list \<times> int \<Rightarrow> error + pipe list \<times> int" where
  "pipeLoop 0 st = Inr st"
| "pipeLoop (Suc i) st =
     (if i < length (fst st)
      then pipeLoop i (removeOffScreen i (moveAndScore i st))
      else Inl TypeError)"

text \<open>
  \<open>update\<close> up to the pipe loop: bird physics, tilt and wing animation, clouds, ground
  scroll and pipe spawning.
\<close>

definition updateWorld :: "rat \<Rightarrow> rat \<Rightarrow> rat \<Rightarrow> game_state \<Rightarrow> game_state" where
  "updateWorld dt now rnd s =
     (let s1 = s\<lparr> bird := birdPhysics dt (bird s) \<rparr>;
          s2 = s1\<lparr> clouds := map cloudScroll (clouds s1) \<rparr>;
          s3 = s2\<lparr> groundScroll := groundScroll s2 + PIPE_SPEED \<rparr>
      in spawnPipe now rnd s3)"

definition update :: "rat \<Rightarrow> rat \<Rightarrow> rat \<Rightarrow> game_state \<Rightarrow> error + game_state" where
  "update dt now rnd s =
     (if phase s \<noteq> PLAYING then Inr s
      else
        let s4 = updateWorld dt now rnd s
        in case pipeLoop (length (pipes s4)) (pipes s4, score s4) of
             Inl e \<Rightarrow> Inl e
           | Inr (ps, sc) \<Rightarrow>
               let s5 = s4\<lparr> pipes := ps, score := sc \<rparr>
               in Inr (if checkCollision (bird s5) (pipes s5) then killBird s5 else s5))"

text \<open>
  What one pass of the loop body does to the pipe it visits, and what it adds to the
  score: the per-pipe reading of \<open>moveAndScore\<close>, used to follow a pipe over many ticks.
\<close>

definition pipeTick :: "pipe \<Rightarrow> pipe" where
  "pipeTick p =
     (let p1 = movePipe p in if shouldScore p1 then p1\<lparr> scored := True \<rparr> else p1)"

definition pipeGain :: "pipe \<Rightarrow> int" where
  "pipeGain p = (if shouldScore (movePipe p) then 1 else 0)"

subsection \<open>\<section>9 Boot and reset\<close>

definition beginGame :: "rat \<Rightarrow> game_state \<Rightarrow> game_state" where
  "beginGame now s =
     s\<lparr> phase := PLAYING, bird := (bird s)\<lparr> vy := JUMP_VEL \<rparr>,
        lastPipeTime := now + 800 \<rparr>"

definition resetGame :: "rat \<Rightarrow> game_state \<Rightarrow> game_state" where
  "resetGame now s =
     s\<lparr> pipes := [], score := 0, bird := createBird\<lparr> vy := JUMP_VEL \<rparr>,
        phase := PLAYING, lastPipeTime := now + 800 \<rparr>"

text \<open>
  The state after the script has run to its end: the object literal \<open>state\<close> (whose
  \<open>bestScore\<close> is read from the store) followed by \<open>initState()\<close>.
\<close>

definition initState :: "(string \<times> string) list \<Rightarrow> rat \<Rightarrow> game_state" where
  "initState st now =
     \<lparr> phase = START, bird = createBird, pipes = [], clouds = generateClouds, score = 0,
       bestScore = loadBest st, lastPipeTime = now, groundScroll = 0, storage = st,
       timers = [] \<rparr>"

subsection \<open>\<section>8 Input handling\<close>

text \<open>
  \<open>handleFlap\<close> at time \<open>now\<close>. In phase \<open>DEAD\<close> it calls \<open>setTimeout(resetGame, 80)\<close>: the
  callback is due 80 ms after the call.
\<close>

definition handleFlap :: "rat \<Rightarrow> game_state \<Rightarrow> game_state" where
  "handleFlap now s =
     (if phase s = START then beginGame now s
      else if phase s = DEAD then s\<lparr> timers := timers s @ [now + 80] \<rparr>
      else if phase s = PLAYING \<and> alive (bird s)
      then s\<lparr> bird := (bird s)\<lparr> vy := JUMP_VEL, angle := TILT_UP \<rparr> \<rparr>
      else s)"

text \<open>
  The timer queue of the host at time \<open>now\<close>: every pending callback whose due time has
  come runs \<open>resetGame\<close>, in the order of scheduling, and leaves the queue.
\<close>

definition runTimers :: "rat \<Rightarrow> game_state \<Rightarrow> game_state" where
  "runTimers now s =
     (fold (\<lambda>t. resetGame now) (filter (\<lambda>t. t \<le> now) (timers s)) s)
       \<lparr> timers := filter (\<lambda>t. \<not> t \<le> now) (timers s) \<rparr>"

subsection \<open>Sample states\<close>

text \<open>
  A freshly booted game with an empty store, and the same game after the first flap at
  time 0: the concrete inputs at which the theorems below are instantiated.
\<close>

definition sampleStart :: game_state where
  "sampleStart = initState [] 0"

definition samplePlaying :: game_state where
  "samplePlaying = handleFlap 0 sampleStart"

text \<open>
  A bird about to touch the ground (centre at \<open>y = 506\<close>), and the state one tick later,
  at time 1000.
\<close>

definition sampleFalling :: game_state where
  "sampleFalling = samplePlaying\<lparr> bird := createBird\<lparr> bird_y := 506 \<rparr> \<rparr>"

definition sampleDead :: game_state where
  "sampleDead =
     (case update 16 1000 0 sampleFalling of Inr s' \<Rightarrow> s' | Inl e \<Rightarrow> sampleFalling)"

subsection \<open>Notions used to state the properties\<close>

text \<open>
  Plane geometry for the collision test, in the words of the specification: the squared
  distance between two points, and membership of a point in an axis-aligned rectangle
  given by two opposite corners.
\<close>

definition sqDist :: "rat \<Rightarrow> rat \<Rightarrow> rat \<Rightarrow> rat \<Rightarrow> rat" where
  "sqDist ax ay qx qy = (ax - qx) * (ax - qx) + (ay - qy) * (ay - qy)"

definition inRect :: "rat \<Rightarrow> rat \<Rightarrow> rat \<Rightarrow> rat \<Rightarrow> rat \<Rightarrow> rat \<Rightarrow> bool" where
  "inRect x0 y0 x1 y1 qx qy = (x0 \<le> qx \<and> qx \<le> x1 \<and> y0 \<le> qy \<and> qy \<le> y1)"

text \<open>
  The squared distance as \<open>checkCollision\<close> computes it: each difference, each square and
  the sum rounded to a double.
\<close>

definition sqDistFl :: "rat \<Rightarrow> rat \<Rightarrow> rat \<Rightarrow> rat \<Rightarrow> rat" where
  "sqDistFl ax ay qx qy =
     jsAdd (jsMul (jsSub ax qx) (jsSub ax qx)) (jsMul (jsSub ay qy) (jsSub ay qy))"

text \<open>
  A well-formed pipe: the gap has the configured height up to the rounding of one
  addition, and starts within the margins \<open>[60, GROUND_Y - PIPE_GAP - 60]\<close>.
\<close>

definition pipeOk :: "pipe \<Rightarrow> bool" where
  "pipeOk p = (\<bar>gapBot p - gapTop p - PIPE_GAP\<bar> \<le> 1 / 2 ^ 45 \<and> 60 \<le> gapTop p \<and>
               gapTop p \<le> GROUND_Y - PIPE_GAP - 60)"

text \<open>A pipe with its gap in the middle, whose right edge is about to pass the bird.\<close>

definition samplePipe :: pipe where
  "samplePipe = (createPipe (1 / 2))\<lparr> pipe_x := 33 \<rparr>"

text \<open>
  Doubles at which rounding shows: the value \<open>0.2\<close> of \<open>Math.random()\<close>; a bird whose
  centre is the double just below 506; and a bird next to the lower right corner of a
  top pipe, at a distance just under the radius.
\<close>

definition sampleRnd :: rat where
  "sampleRnd = 3602879701896397 / 18014398509481984"

definition sampleGrazing :: bird where
  "sampleGrazing = createBird\<lparr> bird_y := 506 - 1 / 2 ^ 44 \<rparr>"

definition sampleCorner :: bird where
  "sampleCorner = createBird\<lparr> bird_y := 6633119328222429 / 35184372088832 \<rparr>"

definition sampleCornerPipe :: pipe where
  "sampleCornerPipe =
     \<lparr> pipe_x = 20043556230933 / 1099511627776, gapTop = 186, gapBot = 334, scored = False \<rparr>"

section \<open>Properties\<close>

lemmas CFG_defs =
  W_def H_def BIRD_X_def BIRD_RADIUS_def JUMP_VEL_def GRAVITY_def MAX_FALL_VEL_def
  TILT_UP_def TILT_DOWN_def PIPE_W_def PIPE_GAP_def PIPE_SPEED_def PIPE_SPAWN_X_def
  PIPE_INTERVAL_def GROUND_H_def GROUND_Y_def WING_FRAMES_def WING_SPEED_def
  SCORE_X_THRESHOLD_def

subsection \<open>Rounding to doubles\<close>

text \<open>
  The exponent brackets its argument, so \<open>fl\<close> never crosses a double: it is at least
  every double below its argument and at most every double above it, it moves its
  argument by at most half the spacing, and it leaves doubles (among them the integers
  below \<open>2 ^ 53\<close>) where they are. \<open>fl_near\<close> and \<open>fl_tie\<close> compute \<open>fl\<close> at a given number
  from its exponent and the nearest significand.
\<close>

lemma p2_suc: "(2::rat) powi (e + 1) = 2 * 2 powi e"
  by (simp add: power_int_add)

lemma p2_pred: "(2::rat) powi (e - 1) = 2 powi e / 2"
  by (simp add: power_int_diff)

lemma p2_mono: "a \<le> b \<Longrightarrow> (2::rat) powi a \<le> 2 powi b"
  by (rule power_int_increasing) simp_all

lemma p2_strict_mono: "a < b \<Longrightarrow> (2::rat) powi a < 2 powi b"
  by (rule power_int_strict_increasing) simp_all

lemma expo_bounds:
  "0 < x \<Longrightarrow> 2 powi expo x \<le> x \<and> x < 2 powi (expo x + 1)"
proof (induction x rule: expo.induct)
  case (1 x)
  show ?case
  proof (cases "x < 1")
    case True
    with 1 have ih: "2 powi expo (2 * x) \<le> 2 * x" "2 * x < 2 powi (expo (2 * x) + 1)"
      by simp_all
    have e: "expo x = expo (2 * x) - 1" using 1(3) True by (simp add: expo.simps [of x])
    have a: "(2::rat) powi (expo (2 * x) - 1) = 2 powi expo (2 * x) / 2" by (rule p2_pred)
    have b: "(2::rat) powi (expo (2 * x) + 1) = 2 * 2 powi expo (2 * x)" by (rule p2_suc)
    have "2 powi (expo (2 * x) - 1) \<le> x" using ih(1) unfolding a by linarith
    moreover have "x < 2 powi (expo (2 * x) - 1 + 1)" using ih(2) unfolding b by simp
    ultimately show ?thesis unfolding e by blast
  next
    case False
    show ?thesis
    proof (cases "2 \<le> x")
      case True
      with 1 False have ih: "2 powi expo (x / 2) \<le> x / 2" "x / 2 < 2 powi (expo (x / 2) + 1)"
        by simp_all
      have e: "expo x = expo (x / 2) + 1" using 1(3) False True by (simp add: expo.simps [of x])
      have a: "(2::rat) powi (expo (x / 2) + 1) = 2 * 2 powi expo (x / 2)" by (rule p2_suc)
      have b: "(2::rat) powi (expo (x / 2) + 1 + 1) = 2 * 2 powi (expo (x / 2) + 1)"
        by (rule p2_suc)
      have "2 powi (expo (x / 2) + 1) \<le> x" using ih(1) unfolding a by linarith
      moreover have "x < 2 powi (expo (x / 2) + 1 + 1)" using ih(2) unfolding b by linarith
      ultimately show ?thesis unfolding e by blast
    next
      case b: False
      have e: "expo x = 0" using 1(3) False b by (simp add: expo.simps [of x])
      show ?thesis using False b unfolding e by simp
    qed
  qed
qed

lemma expo_unique:
  assumes "0 < x" "2 powi e \<le> x" "x < 2 powi (e + 1)"
  shows "expo x = e"
proof (rule ccontr)
  assume ne: "expo x \<noteq> e"
  note b = expo_bounds [OF assms(1)]
  show False
  proof (cases "expo x < e")
    case True
    then have "(2::rat) powi (expo x + 1) \<le> 2 powi e" by (intro p2_mono) simp
    with b assms(2) show False by linarith
  next
    case False
    with ne have "(2::rat) powi (e + 1) \<le> 2 powi expo x" by (intro p2_mono) simp
    with b assms(3) show False by linarith
  qed
qed

lemma expo_mono:
  assumes "0 < x" "x \<le> y"
  shows "expo x \<le> expo y"
proof (rule ccontr)
  assume "\<not> expo x \<le> expo y"
  then have "(2::rat) powi (expo y + 1) \<le> 2 powi expo x" by (intro p2_mono) simp
  moreover have "0 < y" using assms by simp
  ultimately show False
    using expo_bounds [OF assms(1)] expo_bounds [of y] assms(2) by linarith
qed

lemma rne_of_int: "rne (of_int k) = k"
  by (simp add: rne_def)

lemma rne_floor: "\<lfloor>q\<rfloor> \<le> rne q \<and> rne q \<le> \<lfloor>q\<rfloor> + 1"
  by (simp add: rne_def Let_def)

lemma rne_ge:
  assumes "of_int k \<le> q"
  shows "k \<le> rne q"
proof -
  from assms have "k \<le> \<lfloor>q\<rfloor>" by (simp add: le_floor_iff)
  with rne_floor [of q] show ?thesis by linarith
qed

lemma rne_le:
  assumes "q \<le> of_int k"
  shows "rne q \<le> k"
proof (cases "q = of_int k")
  case True
  then show ?thesis by (simp add: rne_of_int)
next
  case False
  with assms have "q < of_int k" by simp
  then have "\<lfloor>q\<rfloor> < k" by (simp add: floor_less_iff)
  with rne_floor [of q] show ?thesis by simp
qed

lemma rne_error: "\<bar>of_int (rne q) - q\<bar> \<le> 1 / 2"
proof -
  define r where "r = q - of_int \<lfloor>q\<rfloor>"
  have r: "0 \<le> r" "r < 1" unfolding r_def by linarith+
  have q: "q = of_int \<lfloor>q\<rfloor> + r" unfolding r_def by simp
  consider "r < 1 / 2" | "1 / 2 < r" | "r = 1 / 2" by linarith
  then show ?thesis
  proof cases
    case 1
    then have "rne q = \<lfloor>q\<rfloor>" by (simp add: rne_def Let_def r_def)
    then have "of_int (rne q) - q = - r" unfolding r_def by simp
    with r 1 show ?thesis by simp
  next
    case 2
    then have "rne q = \<lfloor>q\<rfloor> + 1" by (simp add: rne_def Let_def r_def)
    then have "of_int (rne q) - q = 1 - r" unfolding r_def by simp
    with r 2 show ?thesis by simp
  next
    case 3
    then have "rne q = \<lfloor>q\<rfloor> \<or> rne q = \<lfloor>q\<rfloor> + 1" by (simp add: rne_def Let_def r_def)
    then have "of_int (rne q) - q = - r \<or> of_int (rne q) - q = 1 - r"
      unfolding r_def by auto
    with 3 show ?thesis by auto
  qed
qed

lemma ulp_pos: "0 < ulp x"
  by (simp add: ulp_def)

lemma fl_0: "fl 0 = 0"
  by (simp add: fl_def rne_def)

lemma fl_nonneg: "0 \<le> x \<Longrightarrow> 0 \<le> fl x"
proof -
  assume "0 \<le> x"
  then have "of_int 0 \<le> x / ulp x" using ulp_pos [of x] by simp
  then have "0 \<le> rne (x / ulp x)" by (rule rne_ge)
  then show ?thesis using ulp_pos [of x] by (simp add: fl_def)
qed

lemma fl_nonpos: "x \<le> 0 \<Longrightarrow> fl x \<le> 0"
proof -
  assume "x \<le> 0"
  then have "x / ulp x \<le> of_int 0" using ulp_pos [of x] by (simp add: divide_nonpos_pos)
  then have "rne (x / ulp x) \<le> 0" by (rule rne_le)
  then show ?thesis using ulp_pos [of x] by (simp add: fl_def mult_nonpos_nonneg)
qed

lemma fl_error: "\<bar>fl x - x\<bar> \<le> ulp x / 2"
proof -
  have "fl x - x = (of_int (rne (x / ulp x)) - x / ulp x) * ulp x"
    using ulp_pos [of x] by (simp add: fl_def field_simps)
  then have "\<bar>fl x - x\<bar> = \<bar>of_int (rne (x / ulp x)) - x / ulp x\<bar> * ulp x"
    using ulp_pos [of x] by (simp add: abs_mult)
  also have "\<dots> \<le> 1 / 2 * ulp x"
    using rne_error [of "x / ulp x"] ulp_pos [of x] by (intro mult_right_mono) simp_all
  finally show ?thesis by simp
qed

lemma ulp_pos_x: "0 < x \<Longrightarrow> ulp x = 2 powi (max (expo x) (- 1022) - 52)"
  by (simp add: ulp_def)

lemma p2_quot: "(2::rat) powi a / 2 powi b = 2 powi (a - b)"
  by (simp add: power_int_diff)

lemma p2_prod: "(2::rat) powi a * 2 powi b = 2 powi (a + b)"
  by (simp add: power_int_add)

lemma fl_ge_binade:
  assumes "0 < x" "- 1022 \<le> expo x"
  shows "2 powi expo x \<le> fl x"
proof -
  define u where "u = ulp x"
  have u: "u = 2 powi (expo x - 52)" using assms by (simp add: u_def ulp_pos_x max_def)
  have up: "0 < u" by (simp add: u)
  have "2 powi expo x / u \<le> x / u"
    using expo_bounds [OF assms(1)] up by (intro divide_right_mono) simp_all
  moreover have "2 powi expo x / u = (2::rat) powi 52" unfolding u p2_quot by simp
  ultimately have "of_int (2 ^ 52) \<le> x / u" by simp
  then have "2 ^ 52 \<le> rne (x / u)" by (rule rne_ge)
  then have "(of_int (2 ^ 52) :: rat) \<le> of_int (rne (x / u))" by (simp only: of_int_le_iff)
  then have "of_int (2 ^ 52) * u \<le> of_int (rne (x / u)) * u"
    using up by (intro mult_right_mono) simp_all
  moreover have "(of_int (2 ^ 52) :: rat) * u = 2 powi 52 * 2 powi (expo x - 52)"
    unfolding u by simp
  moreover have "(2::rat) powi 52 * 2 powi (expo x - 52) = 2 powi expo x"
    unfolding p2_prod by simp
  ultimately show ?thesis by (simp add: fl_def u_def)
qed

lemma fl_le_binade:
  assumes "0 < x"
  shows "fl x \<le> 2 powi (max (expo x) (- 1022) + 1)"
proof -
  define E where "E = max (expo x) (- 1022)"
  define u where "u = ulp x"
  have u: "u = 2 powi (E - 52)" using assms by (simp add: u_def E_def ulp_pos_x)
  have up: "0 < u" by (simp add: u)
  have "x < 2 powi (expo x + 1)" using expo_bounds [OF assms] by simp
  also have "\<dots> \<le> 2 powi (E + 1)" by (intro p2_mono) (simp add: E_def)
  finally have "x / u \<le> 2 powi (E + 1) / u"
    using up by (intro divide_right_mono) simp_all
  moreover have "2 powi (E + 1) / u = (2::rat) powi 53" unfolding u p2_quot by simp
  ultimately have "x / u \<le> of_int (2 ^ 53)" by simp
  then have "rne (x / u) \<le> 2 ^ 53" by (rule rne_le)
  then have "(of_int (rne (x / u)) :: rat) \<le> of_int (2 ^ 53)" by (simp only: of_int_le_iff)
  then have "of_int (rne (x / u)) * u \<le> of_int (2 ^ 53) * u"
    using up by (intro mult_right_mono) simp_all
  moreover have "(of_int (2 ^ 53) :: rat) * u = 2 powi 53 * 2 powi (E - 52)"
    unfolding u by simp
  moreover have "(2::rat) powi 53 * 2 powi (E - 52) = 2 powi (E + 1)"
  proof -
    have "53 + (E - 52) = E + 1" by simp
    then show ?thesis by (simp only: p2_prod)
  qed
  ultimately show ?thesis by (simp add: fl_def u_def E_def)
qed

lemma fl_ge:
  assumes "0 < d" "isDouble d" "d \<le> x"
  shows "d \<le> fl x"
proof -
  have x: "0 < x" using assms by simp
  define Ed where "Ed = max (expo d) (- 1022)"
  define Ex where "Ex = max (expo x) (- 1022)"
  have le: "Ed \<le> Ex" using expo_mono [OF assms(1,3)] by (simp add: Ed_def Ex_def)
  show ?thesis
  proof (cases "Ed = Ex")
    case True
    then have u: "ulp d = ulp x" using assms(1) x by (simp add: ulp_pos_x Ed_def Ex_def)
    have k: "of_int \<lfloor>d / ulp x\<rfloor> = d / ulp x"
      using assms(2) unfolding isDouble_def u .
    have "d / ulp x \<le> x / ulp x"
      using assms(3) ulp_pos [of x] by (intro divide_right_mono) simp_all
    with k have "of_int \<lfloor>d / ulp x\<rfloor> \<le> x / ulp x" by linarith
    then have "\<lfloor>d / ulp x\<rfloor> \<le> rne (x / ulp x)" by (rule rne_ge)
    then have "(of_int \<lfloor>d / ulp x\<rfloor> :: rat) \<le> of_int (rne (x / ulp x))"
      by (simp only: of_int_le_iff)
    then have "of_int \<lfloor>d / ulp x\<rfloor> * ulp x \<le> of_int (rne (x / ulp x)) * ulp x"
      using ulp_pos [of x] by (intro mult_right_mono) simp_all
    moreover have "of_int \<lfloor>d / ulp x\<rfloor> * ulp x = d"
      unfolding k using ulp_pos [of x] by simp
    ultimately show ?thesis by (simp add: fl_def)
  next
    case False
    with le have lt: "Ed < Ex" by simp
    then have ex: "- 1022 \<le> expo x" "expo d + 1 \<le> expo x"
      by (simp_all add: Ed_def Ex_def max_def split: if_splits)
    have "d < 2 powi (expo d + 1)" using expo_bounds [OF assms(1)] by simp
    also have "\<dots> \<le> 2 powi expo x" using ex(2) by (rule p2_mono)
    also have "\<dots> \<le> fl x" using x ex(1) by (rule fl_ge_binade)
    finally show ?thesis by simp
  qed
qed

lemma fl_le:
  assumes "0 < x" "isDouble d" "x \<le> d"
  shows "fl x \<le> d"
proof -
  have d: "0 < d" using assms by simp
  define Ed where "Ed = max (expo d) (- 1022)"
  define Ex where "Ex = max (expo x) (- 1022)"
  have le: "Ex \<le> Ed" using expo_mono [OF assms(1,3)] by (simp add: Ed_def Ex_def)
  show ?thesis
  proof (cases "Ed = Ex")
    case True
    then have u: "ulp d = ulp x" using assms(1) d by (simp add: ulp_pos_x Ed_def Ex_def)
    have k: "of_int \<lfloor>d / ulp x\<rfloor> = d / ulp x"
      using assms(2) unfolding isDouble_def u .
    have "x / ulp x \<le> d / ulp x"
      using assms(3) ulp_pos [of x] by (intro divide_right_mono) simp_all
    with k have "x / ulp x \<le> of_int \<lfloor>d / ulp x\<rfloor>" by linarith
    then have "rne (x / ulp x) \<le> \<lfloor>d / ulp x\<rfloor>" by (rule rne_le)
    then have "(of_int (rne (x / ulp x)) :: rat) \<le> of_int \<lfloor>d / ulp x\<rfloor>"
      by (simp only: of_int_le_iff)
    then have "of_int (rne (x / ulp x)) * ulp x \<le> of_int \<lfloor>d / ulp x\<rfloor> * ulp x"
      using ulp_pos [of x] by (intro mult_right_mono) simp_all
    moreover have "of_int \<lfloor>d / ulp x\<rfloor> * ulp x = d"
      unfolding k using ulp_pos [of x] by simp
    ultimately show ?thesis by (simp add: fl_def)
  next
    case False
    with le have lt: "Ex < Ed" by simp
    then have ed: "Ex + 1 \<le> expo d"
      by (simp_all add: Ed_def Ex_def max_def split: if_splits)
    have "fl x \<le> 2 powi (Ex + 1)" unfolding Ex_def using assms(1) by (rule fl_le_binade)
    also have "\<dots> \<le> 2 powi expo d" using ed by (rule p2_mono)
    also have "\<dots> \<le> d" using expo_bounds [OF d] by simp
    finally show ?thesis .
  qed
qed

lemma ulp_le:
  assumes "0 < x" "x < 2 powi n" "- 1021 \<le> n"
  shows "ulp x \<le> 2 powi (n - 53)"
proof -
  have "expo x < n"
  proof (rule ccontr)
    assume "\<not> expo x < n"
    then have "(2::rat) powi n \<le> 2 powi expo x" by (intro p2_mono) simp
    with expo_bounds [OF assms(1)] assms(2) show False by linarith
  qed
  with assms(3) have "max (expo x) (- 1022) - 52 \<le> n - 53" by simp
  then show ?thesis unfolding ulp_pos_x [OF assms(1)] by (rule p2_mono)
qed


lemma ulp_eval:
  assumes "0 < x" "2 powi e \<le> x" "x < 2 powi (e + 1)" "- 1022 \<le> e"
  shows "ulp x = 2 powi (e - 52)"
  using assms by (simp add: ulp_pos_x expo_unique [OF assms(1-3)] max_def)

lemma fl_eval:
  assumes "0 < x" "2 powi e \<le> x" "x < 2 powi (e + 1)" "- 1022 \<le> e"
  shows "fl x = of_int (rne (x / 2 powi (e - 52))) * 2 powi (e - 52)"
  by (simp add: fl_def ulp_eval [OF assms])

lemma isDouble_eval:
  assumes "0 < x" "2 powi e \<le> x" "x < 2 powi (e + 1)" "- 1022 \<le> e"
  shows "isDouble x = (of_int \<lfloor>x / 2 powi (e - 52)\<rfloor> = x / 2 powi (e - 52))"
  by (simp add: isDouble_def ulp_eval [OF assms])

lemma fl_double: "isDouble d \<Longrightarrow> fl d = d"
proof -
  assume "isDouble d"
  then have k: "d / ulp d = of_int \<lfloor>d / ulp d\<rfloor>" by (simp only: isDouble_def)
  have "rne (d / ulp d) = \<lfloor>d / ulp d\<rfloor>" by (subst k) (rule rne_of_int)
  then have "fl d = of_int \<lfloor>d / ulp d\<rfloor> * ulp d" by (simp only: fl_def)
  also have "\<dots> = d / ulp d * ulp d" by (simp only: k [symmetric])
  also have "\<dots> = d" using ulp_pos [of d] by simp
  finally show ?thesis .
qed


lemma rne_near:
  assumes "\<bar>q - of_int n\<bar> < 1 / 2"
  shows "rne q = n"
proof -
  have "\<bar>(of_int (rne q) :: rat) - of_int n\<bar> < 1"
    using rne_error [of q] assms by linarith
  then have "\<bar>(of_int (rne q - n) :: rat)\<bar> < of_int 1" by simp
  then have "\<bar>rne q - n\<bar> < 1" by (simp only: of_int_abs [symmetric] of_int_less_iff)
  then show ?thesis by simp
qed

lemma rne_tie:
  assumes "\<bar>q - of_int n\<bar> = 1 / 2" "even n"
  shows "rne q = n"
proof (cases "of_int n \<le> q")
  case True
  with assms(1) have q: "q = of_int n + 1 / 2" by simp
  then have "\<lfloor>q\<rfloor> = n" by (simp add: floor_eq_iff)
  then show ?thesis using assms(2) by (simp add: rne_def Let_def q)
next
  case False
  with assms(1) have q: "q = of_int (n - 1) + 1 / 2" by simp
  then have "\<lfloor>q\<rfloor> = n - 1" by (simp only: floor_eq_iff) simp
  then show ?thesis using assms(2) by (simp add: rne_def Let_def q)
qed

lemma fl_near:
  assumes "0 < x" "2 powi e \<le> x" "x < 2 powi (e + 1)" "- 1022 \<le> e"
    and "\<bar>x / 2 powi (e - 52) - of_int n\<bar> < 1 / 2"
  shows "fl x = of_int n * 2 powi (e - 52)"
  by (simp add: fl_eval [OF assms(1-4)] rne_near [OF assms(5)])

lemma fl_tie:
  assumes "0 < x" "2 powi e \<le> x" "x < 2 powi (e + 1)" "- 1022 \<le> e"
    and "\<bar>x / 2 powi (e - 52) - of_int n\<bar> = 1 / 2" "even n"
  shows "fl x = of_int n * 2 powi (e - 52)"
  by (simp add: fl_eval [OF assms(1-4)] rne_tie [OF assms(5,6)])


lemma expo_nat_range:
  assumes "1 \<le> x" "x < 2 ^ 53"
  shows "0 \<le> expo x" "expo x \<le> 52"
proof -
  have x: "0 < x" using assms by simp
  have "expo 1 = 0" by (rule expo_unique) simp_all
  with expo_mono [of 1 x] assms show "0 \<le> expo x" by simp
  show "expo x \<le> 52"
  proof (rule ccontr)
    assume "\<not> expo x \<le> 52"
    then have "(2::rat) powi 53 \<le> 2 powi expo x" by (intro p2_mono) simp
    with expo_bounds [OF x] assms(2) show False by simp
  qed
qed

lemma isDouble_of_int:
  assumes "\<bar>k\<bar> < 2 ^ 53"
  shows "isDouble (of_int k)"
proof (cases "k = 0")
  case True
  then show ?thesis by (simp add: isDouble_def)
next
  case False
  define a :: rat where "a = \<bar>of_int k\<bar>"
  have a: "1 \<le> a" "a < 2 ^ 53"
  proof -
    from False have "1 \<le> \<bar>k\<bar>" by simp
    then have "(of_int 1 :: rat) \<le> of_int \<bar>k\<bar>" by (simp only: of_int_le_iff)
    then show "1 \<le> a" by (simp add: a_def)
    from assms have "(of_int \<bar>k\<bar> :: rat) < of_int (2 ^ 53)" by (simp only: of_int_less_iff)
    then show "a < 2 ^ 53" by (simp add: a_def)
  qed
  define m where "m = nat (52 - expo a)"
  have e: "0 \<le> expo a" "expo a \<le> 52" using expo_nat_range [OF a] by simp_all
  have u: "ulp (of_int k) = 2 powi (expo a - 52)"
    using e by (simp add: ulp_def a_def max_def)
  have "expo a - 52 = - int m" using e by (simp add: m_def)
  then have "ulp (of_int k) = 1 / 2 ^ m" unfolding u by (simp add: power_int_minus_divide)
  then have "of_int k / ulp (of_int k) = (of_int (k * 2 ^ m) :: rat)" by simp
  then show ?thesis unfolding isDouble_def by (simp only: floor_of_int)
qed

lemma fl_of_int: "\<bar>k\<bar> < 2 ^ 53 \<Longrightarrow> fl (of_int k) = of_int k"
  by (rule fl_double) (rule isDouble_of_int)

lemma fl_numeral: "(numeral n :: int) < 2 ^ 53 \<Longrightarrow> fl (numeral n) = numeral n"
  using fl_of_int [of "numeral n"] by simp

lemma isDouble_numeral: "(numeral n :: int) < 2 ^ 53 \<Longrightarrow> isDouble (numeral n)"
  using isDouble_of_int [of "numeral n"] by simp


lemma rne_tie_even:
  assumes "\<bar>q - of_int (rne q)\<bar> = 1 / 2"
  shows "even (rne q)"
proof -
  define r where "r = q - of_int \<lfloor>q\<rfloor>"
  have r: "0 \<le> r" "r < 1" unfolding r_def by linarith+
  have half: "r = 1 / 2"
  proof (rule ccontr)
    assume ne: "r \<noteq> 1 / 2"
    show False
    proof (cases "r < 1 / 2")
      case True
      then have "rne q = \<lfloor>q\<rfloor>" by (simp add: rne_def Let_def r_def)
      then have "q - of_int (rne q) = r" by (simp add: r_def)
      with assms True r show False by simp
    next
      case False
      with ne have g: "1 / 2 < r" by simp
      then have "rne q = \<lfloor>q\<rfloor> + 1" by (simp add: rne_def Let_def r_def)
      then have "q - of_int (rne q) = r - 1" by (simp add: r_def)
      with assms g r show False by simp
    qed
  qed
  then show ?thesis by (auto simp add: rne_def Let_def r_def)
qed

lemma rne_minus: "rne (- q) = - rne q"
proof (cases "\<bar>q - of_int (rne q)\<bar> = 1 / 2")
  case True
  then have "\<bar>- q - of_int (- rne q)\<bar> = 1 / 2" by (simp add: abs_minus_commute)
  moreover have "even (- rne q)" using rne_tie_even [OF True] by simp
  ultimately show ?thesis by (rule rne_tie)
next
  case False
  with rne_error [of q] have "\<bar>q - of_int (rne q)\<bar> < 1 / 2" by linarith
  then have "\<bar>- q - of_int (- rne q)\<bar> < 1 / 2" by (simp add: abs_minus_commute)
  then show ?thesis by (rule rne_near)
qed

lemma fl_minus: "fl (- x) = - fl x"
  by (simp add: fl_def ulp_def rne_minus)

lemma doubles_of_the_game:
  "isDouble 60" "isDouble 252" "isDouble 312" "isDouble 460" "isDouble 520"
  by (simp_all add: isDouble_numeral)

lemma createPipe_constants:
  "jsSub (jsSub GROUND_Y PIPE_GAP) 60 = 312" "jsSub 312 60 = 252"
  by (simp_all add: jsSub_def GROUND_Y_def PIPE_GAP_def fl_numeral)

lemma radius_squared: "jsMul BIRD_RADIUS BIRD_RADIUS = 196"
  by (simp add: jsMul_def BIRD_RADIUS_def fl_numeral)

lemma checkCollision_ground:
  assumes "GROUND_Y \<le> bird_y b + BIRD_RADIUS"
  shows "checkCollision b ps"
proof -
  have "520 \<le> bird_y b + BIRD_RADIUS" using assms by (simp add: GROUND_Y_def)
  then have "520 \<le> fl (bird_y b + BIRD_RADIUS)"
    by (intro fl_ge doubles_of_the_game) simp_all
  then show ?thesis by (simp add: checkCollision_def Let_def jsAdd_def GROUND_Y_def)
qed

lemma checkCollision_ceiling:
  assumes "bird_y b - BIRD_RADIUS \<le> 0"
  shows "checkCollision b ps"
  using fl_nonpos [OF assms] by (simp add: checkCollision_def Let_def jsSub_def)

lemma ground_up_to_rounding:
  assumes "GROUND_Y \<le> jsAdd y BIRD_RADIUS"
  shows "GROUND_Y - 1 / 2 ^ 44 \<le> y + BIRD_RADIUS"
proof (cases "520 \<le> y + BIRD_RADIUS")
  case True
  then show ?thesis by (simp add: GROUND_Y_def)
next
  case False
  define x where "x = y + BIRD_RADIUS"
  have f: "520 \<le> fl x" using assms by (simp add: jsAdd_def GROUND_Y_def x_def)
  have pos: "0 < x"
  proof (rule ccontr)
    assume "\<not> 0 < x"
    then have "fl x \<le> 0" by (intro fl_nonpos) simp
    with f show False by simp
  qed
  have "x < 2 powi 10" using False by (simp add: x_def)
  then have "ulp x \<le> 2 powi (10 - 53)" using pos by (intro ulp_le) simp_all
  then have "ulp x / 2 \<le> 1 / 2 ^ 44" by (simp add: power_int_minus_divide)
  with fl_error [of x] have "\<bar>fl x - x\<bar> \<le> 1 / 2 ^ 44" by linarith
  with f show ?thesis by (simp add: x_def GROUND_Y_def abs_if split: if_splits)
qed

subsection \<open>The pipe loop in closed form\<close>

text \<open>
  Iterating downwards and splicing at the current index never disturbs an index still to
  be visited, so the loop visits every pipe exactly once, never reads outside the array,
  and amounts to a map followed by a filter.
\<close>

lemma moveAndScore_at:
  "i < length ps \<Longrightarrow>
   moveAndScore i (ps, sc) = (ps[i := pipeTick (ps ! i)], sc + pipeGain (ps ! i))"
  by (simp add: moveAndScore_def pipeTick_def pipeGain_def Let_def)

lemma removeOffScreen_at:
  assumes "i < length ps"
  shows "removeOffScreen i (ps[i := q], sc) =
     (take i ps @ (if offScreen q then [] else [q]) @ drop (Suc i) ps, sc)"
proof (cases "offScreen q")
  case True
  with assms show ?thesis by (simp add: removeOffScreen_def splice1_def Let_def)
next
  case False
  with assms have "removeOffScreen i (ps[i := q], sc) = (ps[i := q], sc)"
    by (simp add: removeOffScreen_def Let_def)
  with assms False show ?thesis by (simp add: upd_conv_take_nth_drop)
qed

lemma pipeLoop_take:
  "n \<le> length ps \<Longrightarrow>
   pipeLoop n (ps, sc) =
     Inr (filter (\<lambda>q. \<not> offScreen q) (map pipeTick (take n ps)) @ drop n ps,
          sc + sum_list (map pipeGain (take n ps)))"
proof (induction n arbitrary: ps sc)
  case 0
  then show ?case by simp
next
  case (Suc i)
  then have i: "i < length ps" by simp
  let ?q = "pipeTick (ps ! i)"
  let ?ps' = "take i ps @ (if offScreen ?q then [] else [?q]) @ drop (Suc i) ps"
  have len: "i \<le> length ?ps'" using i by simp
  have step: "pipeLoop (Suc i) (ps, sc) = pipeLoop i (?ps', sc + pipeGain (ps ! i))"
    using i by (simp add: moveAndScore_at removeOffScreen_at)
  have tk: "take i ?ps' = take i ps" using i by simp
  have dr: "drop i ?ps' = (if offScreen ?q then [] else [?q]) @ drop (Suc i) ps"
    using i by simp
  show ?case
    unfolding step Suc.IH [OF len] tk dr
    using i by (simp add: take_Suc_conv_app_nth)
qed

lemma pipeLoop_all:
  "pipeLoop (length ps) (ps, sc) =
     Inr (filter (\<lambda>q. \<not> offScreen q) (map pipeTick ps), sc + sum_list (map pipeGain ps))"
  using pipeLoop_take [of "length ps" ps sc] by simp

text \<open>The state that \<open>update\<close> hands to the collision check.\<close>

lemma updateWorld_fields:
  "phase (updateWorld dt now rnd s) = phase s"
  "bird (updateWorld dt now rnd s) = birdPhysics dt (bird s)"
  "score (updateWorld dt now rnd s) = score s"
  "bestScore (updateWorld dt now rnd s) = bestScore s"
  "storage (updateWorld dt now rnd s) = storage s"
  "timers (updateWorld dt now rnd s) = timers s"
  "pipes (updateWorld dt now rnd s) =
     pipes s @ (if now - lastPipeTime s \<ge> PIPE_INTERVAL then [createPipe rnd] else [])"
  by (simp_all add: updateWorld_def spawnPipe_def Let_def)

lemma update_playing:
  assumes "phase s = PLAYING"
  shows "update dt now rnd s =
     Inr (let s4 = updateWorld dt now rnd s;
              s5 = s4\<lparr> pipes := filter (\<lambda>q. \<not> offScreen q) (map pipeTick (pipes s4)),
                        score := score s4 + sum_list (map pipeGain (pipes s4)) \<rparr>
          in if checkCollision (bird s5) (pipes s5) then killBird s5 else s5)"
  using assms by (simp add: update_def pipeLoop_all Let_def)

lemma killBird_fields:
  "phase (killBird s) = DEAD"
  "alive (bird (killBird s)) = False"
  "vy (bird (killBird s)) = vy (bird s)"
  "score (killBird s) = score s"
  "pipes (killBird s) = pipes s"
  "timers (killBird s) = timers s"
  by (simp_all add: killBird_def Let_def)

lemma samplePlaying_fields:
  "phase samplePlaying = PLAYING"
  "bird samplePlaying = createBird\<lparr> vy := JUMP_VEL \<rparr>"
  "pipes samplePlaying = []"
  "score samplePlaying = 0"
  "bestScore samplePlaying = Some 0"
  "storage samplePlaying = []"
  "timers samplePlaying = []"
  "lastPipeTime samplePlaying = 800"
  by (simp_all add: samplePlaying_def sampleStart_def handleFlap_def beginGame_def
      initState_def loadBest_def getItem_def parseInt_def isWhiteSpace_def isDigit_def
      digitValue_def)

subsection \<open>Flap and velocity\<close>

text \<open>
  Claim C8. A flap handled in phase \<open>PLAYING\<close> with the bird alive changes the state in
  two fields only: the vertical velocity becomes \<open>JUMP_VEL = -8.5\<close> whatever it was, and
  the tilt angle becomes \<open>TILT_UP = -25\<close>.
\<close>

theorem flap_sets_jump_velocity:
  "phase s = PLAYING \<and> alive (bird s) \<Longrightarrow>
   handleFlap now s = s\<lparr> bird := (bird s)\<lparr> vy := JUMP_VEL, angle := TILT_UP \<rparr> \<rparr> \<and>
   vy (bird (handleFlap now s)) = JUMP_VEL \<and> JUMP_VEL = - 8.5 \<and>
   angle (bird (handleFlap now s)) = TILT_UP \<and> TILT_UP = - 25"
  by (simp add: handleFlap_def JUMP_VEL_def TILT_UP_def)

theorem flap_sets_jump_velocity_witness:
  "phase (samplePlaying\<lparr> bird := createBird\<lparr> vy := 11 \<rparr> \<rparr>) = PLAYING \<and>
   alive (bird (samplePlaying\<lparr> bird := createBird\<lparr> vy := 11 \<rparr> \<rparr>)) \<and>
   vy (bird (handleFlap 5 (samplePlaying\<lparr> bird := createBird\<lparr> vy := 11 \<rparr> \<rparr>))) = - 8.5 \<and>
   angle (bird (handleFlap 5 (samplePlaying\<lparr> bird := createBird\<lparr> vy := 11 \<rparr> \<rparr>))) = - 25"
  using flap_sets_jump_velocity [of "samplePlaying\<lparr> bird := createBird\<lparr> vy := 11 \<rparr> \<rparr>" 5]
  by (simp add: samplePlaying_fields createBird_def)

lemma fold_resetGame_vy:
  "vy (bird s) \<le> MAX_FALL_VEL \<Longrightarrow>
   vy (bird (fold (\<lambda>t'. resetGame t) xs s)) \<le> MAX_FALL_VEL"
proof (induction xs arbitrary: s)
  case Nil
  then show ?case by simp
next
  case (Cons x xs)
  have "vy (bird (resetGame t s)) \<le> MAX_FALL_VEL"
    by (simp add: resetGame_def JUMP_VEL_def MAX_FALL_VEL_def)
  then have "vy (bird (fold (\<lambda>t'. resetGame t) xs (resetGame t s))) \<le> MAX_FALL_VEL"
    by (rule Cons.IH)
  then show ?case by simp
qed

text \<open>
  Claim C7. After every tick run in phase \<open>PLAYING\<close> the vertical velocity is at most
  \<open>MAX_FALL_VEL = 12\<close> (the tick returns, and whatever the velocity was before). The
  other operations keep the bound: the flap sets a negative velocity or leaves the
  velocity alone, and the restart timer and the first flap set the jump velocity.
\<close>

theorem velocity_bounded:
  "(phase s = PLAYING \<longrightarrow>
      (\<exists>s'. update dt now rnd s = Inr s' \<and> vy (bird s') \<le> MAX_FALL_VEL)) \<and>
   (phase s = PLAYING \<and> vy (bird s) \<le> MAX_FALL_VEL \<longrightarrow>
      vy (bird (handleFlap now s)) \<le> MAX_FALL_VEL) \<and>
   (phase s = PLAYING \<and> alive (bird s) \<longrightarrow> vy (bird (handleFlap now s)) < 0) \<and>
   (vy (bird s) \<le> MAX_FALL_VEL \<longrightarrow> vy (bird (runTimers now s)) \<le> MAX_FALL_VEL) \<and>
   vy (bird (beginGame now s)) \<le> MAX_FALL_VEL \<and>
   MAX_FALL_VEL = 12"
proof (intro conjI impI)
  assume p: "phase s = PLAYING"
  have "vy (birdPhysics dt (bird s)) \<le> MAX_FALL_VEL"
    by (simp add: birdPhysics_def Let_def)
  then show "\<exists>s'. update dt now rnd s = Inr s' \<and> vy (bird s') \<le> MAX_FALL_VEL"
    by (simp add: update_playing [OF p] Let_def killBird_fields updateWorld_fields)
next
  assume "phase s = PLAYING \<and> vy (bird s) \<le> MAX_FALL_VEL"
  then show "vy (bird (handleFlap now s)) \<le> MAX_FALL_VEL"
    by (simp add: handleFlap_def JUMP_VEL_def MAX_FALL_VEL_def)
next
  assume "phase s = PLAYING \<and> alive (bird s)"
  then show "vy (bird (handleFlap now s)) < 0"
    by (simp add: handleFlap_def JUMP_VEL_def)
next
  assume "vy (bird s) \<le> MAX_FALL_VEL"
  then show "vy (bird (runTimers now s)) \<le> MAX_FALL_VEL"
    by (simp add: runTimers_def fold_resetGame_vy)
next
  show "vy (bird (beginGame now s)) \<le> MAX_FALL_VEL"
    by (simp add: beginGame_def JUMP_VEL_def MAX_FALL_VEL_def)
  show "MAX_FALL_VEL = 12" by (simp add: MAX_FALL_VEL_def)
qed

theorem velocity_bounded_witness:
  "phase (samplePlaying\<lparr> bird := createBird\<lparr> vy := 11.9 \<rparr> \<rparr>) = PLAYING \<and>
   alive (bird (samplePlaying\<lparr> bird := createBird\<lparr> vy := 11.9 \<rparr> \<rparr>)) \<and>
   vy (bird (samplePlaying\<lparr> bird := createBird\<lparr> vy := 11.9 \<rparr> \<rparr>)) \<le> MAX_FALL_VEL \<and>
   (\<exists>s'. update 16 1000 0 (samplePlaying\<lparr> bird := createBird\<lparr> vy := 11.9 \<rparr> \<rparr>) = Inr s' \<and>
         vy (bird s') \<le> 12) \<and>
   vy (bird (handleFlap 1000 (samplePlaying\<lparr> bird := createBird\<lparr> vy := 11.9 \<rparr> \<rparr>))) \<le> 12 \<and>
   vy (bird (runTimers 1000 (samplePlaying\<lparr> bird := createBird\<lparr> vy := 11.9 \<rparr> \<rparr>))) \<le> 12"
  using velocity_bounded [of "samplePlaying\<lparr> bird := createBird\<lparr> vy := 11.9 \<rparr> \<rparr>" 16 1000 0]
  by (simp add: samplePlaying_fields createBird_def MAX_FALL_VEL_def)

subsection \<open>Ground collision\<close>

text \<open>
  Claim C2. A tick run in phase \<open>PLAYING\<close> whose physics step leaves the bird's bottom
  edge (\<open>y + BIRD_RADIUS\<close>) at or below \<open>GROUND_Y\<close> returns, and ends in phase \<open>DEAD\<close> with
  the bird's \<open>alive\<close> flag false.
\<close>

theorem ground_hit_kills:
  assumes "phase s = PLAYING"
    and "bird_y (birdPhysics dt (bird s)) + BIRD_RADIUS \<ge> GROUND_Y"
  shows "\<exists>s'. update dt now rnd s = Inr s' \<and> phase s' = DEAD \<and> \<not> alive (bird s')"
proof -
  have "checkCollision (birdPhysics dt (bird s)) ps" for ps
    using assms(2) by (rule checkCollision_ground)
  then show ?thesis
    by (simp add: update_playing [OF assms(1)] Let_def killBird_fields updateWorld_fields)
qed

theorem ground_hit_kills_witness:
  "phase (samplePlaying\<lparr> bird := createBird\<lparr> bird_y := 506 \<rparr> \<rparr>) = PLAYING \<and>
   bird_y (birdPhysics 16 (bird (samplePlaying\<lparr> bird := createBird\<lparr> bird_y := 506 \<rparr> \<rparr>)))
     + BIRD_RADIUS \<ge> GROUND_Y \<and>
   (\<exists>s'. update 16 1000 0 (samplePlaying\<lparr> bird := createBird\<lparr> bird_y := 506 \<rparr> \<rparr>) = Inr s' \<and>
         phase s' = DEAD \<and> \<not> alive (bird s'))"
proof -
  have p: "phase (samplePlaying\<lparr> bird := createBird\<lparr> bird_y := 506 \<rparr> \<rparr>) = PLAYING"
    by (simp add: samplePlaying_fields)
  have g: "bird_y (birdPhysics 16 (bird (samplePlaying\<lparr> bird := createBird\<lparr> bird_y := 506 \<rparr> \<rparr>)))
     + BIRD_RADIUS \<ge> GROUND_Y"
    by (simp add: birdPhysics_def createBird_def Let_def CFG_defs)
  from p g ground_hit_kills [OF p g, of 1000 0] show ?thesis by blast
qed

subsection \<open>Best score\<close>

lemma killBird_numeric:
  assumes "bestScore s = Some b"
  shows "bestScore (killBird s) = Some (max b (score s))"
    and "storage (killBird s) =
           (if score s > b then setItem ''flapster_best'' (String (score s)) (storage s)
            else storage s)"
  using assms by (simp_all add: killBird_def Let_def max_def)

text \<open>
  Claim C3. When \<open>killBird\<close> ends a run whose best score so far is the number \<open>b\<close>, the
  phase becomes \<open>DEAD\<close>, the best score becomes \<open>max b score\<close>, and the store is written
  (\<open>setItem\<close> of the key \<open>flapster_best\<close> with the score as a string) if and only if the
  score is strictly greater than \<open>b\<close>. Seen from the tick: a tick in \<open>PLAYING\<close> that does not
  end the run leaves best score and store alone; a tick that ends it leaves the best score
  at the maximum of the old best and the score at death (which counts the pipes scored in
  that last tick), and has written the store exactly when that score exceeds the old best.
\<close>

theorem best_score_on_death:
  assumes "bestScore s = Some b"
  shows "phase (killBird s) = DEAD \<and>
         bestScore (killBird s) = Some (max b (score s)) \<and>
         (storage (killBird s) = setItem ''flapster_best'' (String (score s)) (storage s)
            \<longleftrightarrow> score s > b) \<and>
         (storage (killBird s) = storage s \<longleftrightarrow> \<not> score s > b) \<and>
         (phase s = PLAYING \<longrightarrow>
            (\<exists>s'. update dt now rnd s = Inr s' \<and>
               (phase s' = PLAYING \<longrightarrow> bestScore s' = Some b \<and> storage s' = storage s) \<and>
               (phase s' = DEAD \<longrightarrow> bestScore s' = Some (max b (score s')) \<and>
                  (storage s' \<noteq> storage s \<longleftrightarrow> score s' > b))))"
proof (intro conjI impI)
  show "phase (killBird s) = DEAD" by (simp add: killBird_fields)
  show "bestScore (killBird s) = Some (max b (score s))"
    by (rule killBird_numeric [OF assms])
  show "(storage (killBird s) = setItem ''flapster_best'' (String (score s)) (storage s))
          = (score s > b)"
    by (simp add: killBird_numeric [OF assms] setItem_def)
  show "(storage (killBird s) = storage s) = (\<not> score s > b)"
    by (simp add: killBird_numeric [OF assms] setItem_def)
next
  assume p: "phase s = PLAYING"
  define s4 where "s4 = updateWorld dt now rnd s"
  define s5 where
    "s5 = s4\<lparr> pipes := filter (\<lambda>q. \<not> offScreen q) (map pipeTick (pipes s4)),
              score := score s4 + sum_list (map pipeGain (pipes s4)) \<rparr>"
  have b5: "bestScore s5 = Some b" and st5: "storage s5 = storage s"
    and p5: "phase s5 = PLAYING"
    using assms p by (simp_all add: s5_def s4_def updateWorld_fields)
  have u: "update dt now rnd s =
      Inr (if checkCollision (bird s5) (pipes s5) then killBird s5 else s5)"
    by (simp add: update_playing [OF p] Let_def s5_def s4_def)
  show "\<exists>s'. update dt now rnd s = Inr s' \<and>
               (phase s' = PLAYING \<longrightarrow> bestScore s' = Some b \<and> storage s' = storage s) \<and>
               (phase s' = DEAD \<longrightarrow> bestScore s' = Some (max b (score s')) \<and>
                  (storage s' \<noteq> storage s \<longleftrightarrow> score s' > b))"
  proof (cases "checkCollision (bird s5) (pipes s5)")
    case True
    then show ?thesis
      by (simp add: u killBird_fields killBird_numeric [OF b5] st5 setItem_def)
  next
    case False
    then show ?thesis by (simp add: u b5 st5 p5)
  qed
qed

theorem best_score_on_death_witness:
  "bestScore (samplePlaying\<lparr> score := 3 \<rparr>) = Some 0 \<and>
   phase (killBird (samplePlaying\<lparr> score := 3 \<rparr>)) = DEAD \<and>
   bestScore (killBird (samplePlaying\<lparr> score := 3 \<rparr>)) = Some 3 \<and>
   storage (killBird (samplePlaying\<lparr> score := 3 \<rparr>)) = [(''flapster_best'', ''3'')]"
proof -
  have b: "bestScore (samplePlaying\<lparr> score := 3 \<rparr>) = Some 0"
    by (simp add: samplePlaying_fields)
  have s3: "String 3 = ''3''" by code_simp
  from best_score_on_death [OF b, of 16 1000 0] b s3 show ?thesis
    by (simp add: setItem_def samplePlaying_fields)
qed

text \<open>
  Claim C4 fails on the code. A stored value without a leading integer, such as \<open>abc\<close>, is
  truthy, so \<open>||\<close> passes it on and \<open>parseInt\<close> returns \<open>NaN\<close>, which becomes the best
  score of the booted game. Only the missing entry and the empty string get the default.
\<close>

theorem stored_garbage_gives_nan:
  "bestScore (initState [(''flapster_best'', ''abc'')] 0) = None"
  by (simp add: initState_def loadBest_def getItem_def parseInt_def isWhiteSpace_def
      isDigit_def)

lemma loadBest_defaults:
  "loadBest [] = Some 0"
  "loadBest [(''flapster_best'', [])] = Some 0"
  "loadBest [(''flapster_best'', ''17'')] = Some 17"
  by (simp_all add: loadBest_def getItem_def parseInt_def isWhiteSpace_def isDigit_def
      digitValue_def)

text \<open>A \<open>NaN\<close> best score is never replaced and never written back.\<close>

lemma nan_best_is_stuck:
  "bestScore s = None \<Longrightarrow> bestScore (killBird s) = None \<and> storage (killBird s) = storage s"
  by (simp add: killBird_def Let_def)

subsection \<open>Flaps in phase \<open>DEAD\<close>\<close>

lemma sampleDead_eq:
  "update 16 1000 0 sampleFalling = Inr sampleDead"
  "phase sampleDead = DEAD"
  "timers sampleDead = []"
proof -
  let ?w = "updateWorld 16 1000 0 sampleFalling"
  have p: "phase sampleFalling = PLAYING"
    by (simp add: sampleFalling_def samplePlaying_fields)
  have g: "bird_y (birdPhysics 16 (bird sampleFalling)) + BIRD_RADIUS \<ge> GROUND_Y"
    by (simp add: sampleFalling_def birdPhysics_def createBird_def Let_def CFG_defs)
  have c: "checkCollision (birdPhysics 16 (bird sampleFalling)) ps" for ps
    using g by (rule checkCollision_ground)
  have u: "update 16 1000 0 sampleFalling =
      Inr (killBird (?w\<lparr> pipes := filter (\<lambda>q. \<not> offScreen q) (map pipeTick (pipes ?w)),
                        score := score ?w + sum_list (map pipeGain (pipes ?w)) \<rparr>))"
    by (simp add: update_playing [OF p] Let_def updateWorld_fields c)
  show e: "update 16 1000 0 sampleFalling = Inr sampleDead"
    by (simp add: sampleDead_def u)
  from e u have sd: "sampleDead =
      killBird (?w\<lparr> pipes := filter (\<lambda>q. \<not> offScreen q) (map pipeTick (pipes ?w)),
                   score := score ?w + sum_list (map pipeGain (pipes ?w)) \<rparr>)"
    by simp
  show "phase sampleDead = DEAD" by (simp add: sd killBird_fields)
  have "timers sampleDead = timers sampleFalling"
    by (simp add: sd killBird_fields updateWorld_fields)
  then show "timers sampleDead = []"
    by (simp add: sampleFalling_def samplePlaying_fields)
qed

lemma resetGame_timers_upd:
  "resetGame t (s\<lparr> timers := T \<rparr>) = (resetGame t s)\<lparr> timers := T \<rparr>"
  by (simp add: resetGame_def)

lemma fold_resetGame_timers:
  "fold (\<lambda>t'. resetGame t) xs (s\<lparr> timers := T \<rparr>) =
   (fold (\<lambda>t'. resetGame t) xs s)\<lparr> timers := T \<rparr>"
  by (induction xs arbitrary: s) (simp_all add: resetGame_timers_upd)

text \<open>
  Claim C5 is broken by the code. The comment in \<open>handleFlap\<close> states the purpose of the
  delay, a brief pause before a restart is allowed, so that an accidental double tap does
  not restart the run; but the delay is counted from the flap, not from the death, and
  \<open>handleFlap\<close> never looks at the time since death. The bird dies in the tick at time
  1000; a flap 1 ms later leaves the phase \<open>DEAD\<close> but schedules \<open>resetGame\<close>, and at time
  1081 the run has restarted with score 0 and no pipes.
\<close>

theorem early_flap_restarts:
  "update 16 1000 0 sampleFalling = Inr sampleDead \<and> phase sampleDead = DEAD \<and>
   (1001 :: rat) < 1000 + 80 \<and>
   phase (handleFlap 1001 sampleDead) = DEAD \<and>
   phase (runTimers 1081 (handleFlap 1001 sampleDead)) = PLAYING \<and>
   score (runTimers 1081 (handleFlap 1001 sampleDead)) = 0 \<and>
   pipes (runTimers 1081 (handleFlap 1001 sampleDead)) = []"
  by (simp add: sampleDead_eq handleFlap_def runTimers_def resetGame_def)

text \<open>
  The sample is not special. In any state of phase \<open>DEAD\<close> a flap at any time schedules
  \<open>resetGame\<close> 80 ms later, and once that time has come the run has restarted.
\<close>

lemma dead_flap_at_any_time:
  assumes "phase s = DEAD"
  shows "handleFlap now s = s\<lparr> timers := timers s @ [now + 80] \<rparr> \<and>
         (\<forall>t. now + 80 \<le> t \<longrightarrow>
            phase (runTimers t (handleFlap now s)) = PLAYING \<and>
            score (runTimers t (handleFlap now s)) = 0 \<and>
            pipes (runTimers t (handleFlap now s)) = [] \<and>
            bird (runTimers t (handleFlap now s)) = createBird\<lparr> vy := JUMP_VEL \<rparr>) \<and>
         (\<forall>t. t < now + 80 \<and> timers s = [] \<longrightarrow>
            runTimers t (handleFlap now s) = handleFlap now s)"
proof (intro conjI allI impI)
  show h: "handleFlap now s = s\<lparr> timers := timers s @ [now + 80] \<rparr>"
    using assms by (simp add: handleFlap_def)
  fix t :: rat
  {
    assume t: "now + 80 \<le> t"
    have r: "runTimers t (handleFlap now s) =
        (resetGame t (fold (\<lambda>t'. resetGame t) (filter (\<lambda>t'. t' \<le> t) (timers s)) s))
          \<lparr> timers := filter (\<lambda>t'. \<not> t' \<le> t) (timers s) \<rparr>"
      using t by (simp add: h runTimers_def fold_resetGame_timers resetGame_timers_upd)
    show "phase (runTimers t (handleFlap now s)) = PLAYING"
      and "score (runTimers t (handleFlap now s)) = 0"
      and "pipes (runTimers t (handleFlap now s)) = []"
      and "bird (runTimers t (handleFlap now s)) = createBird\<lparr> vy := JUMP_VEL \<rparr>"
      by (simp_all add: r resetGame_def)
  }
  {
    assume "t < now + 80 \<and> timers s = []"
    then show "runTimers t (handleFlap now s) = handleFlap now s"
      by (simp add: h runTimers_def)
  }
qed

subsection \<open>Collision test\<close>

text \<open>
  Clamping a coordinate to an interval gives the point of the interval nearest to it, so
  the point that \<open>checkCollision\<close> computes for a rectangle is the closest point of that
  rectangle to the centre of the bird.
\<close>

lemma clamp_inside: "lo \<le> hi \<Longrightarrow> lo \<le> max lo (min b hi) \<and> max lo (min b hi) \<le> (hi :: rat)"
  by (simp add: max_def min_def)

lemma clamp_nearest:
  fixes b :: rat
  assumes "lo \<le> q" "q \<le> hi"
  shows "(b - max lo (min b hi)) * (b - max lo (min b hi)) \<le> (b - q) * (b - q)"
proof -
  have "\<bar>b - max lo (min b hi)\<bar> \<le> \<bar>b - q\<bar>"
    using assms by (simp add: max_def min_def abs_if)
  then show ?thesis
    by (simp add: abs_le_square_iff power2_eq_square)
qed

lemma nearest_in_rect:
  assumes "x0 \<le> x1" "y0 \<le> y1"
  shows "inRect x0 y0 x1 y1 (max x0 (min bx x1)) (max y0 (min by y1))"
    and "inRect x0 y0 x1 y1 qx qy \<Longrightarrow>
         sqDist bx by (max x0 (min bx x1)) (max y0 (min by y1)) \<le> sqDist bx by qx qy"
proof -
  show "inRect x0 y0 x1 y1 (max x0 (min bx x1)) (max y0 (min by y1))"
    using assms clamp_inside [of x0 x1 bx] clamp_inside [of y0 y1 "by"]
    by (simp add: inRect_def)
  assume "inRect x0 y0 x1 y1 qx qy"
  then have "x0 \<le> qx" "qx \<le> x1" "y0 \<le> qy" "qy \<le> y1" by (simp_all add: inRect_def)
  then show "sqDist bx by (max x0 (min bx x1)) (max y0 (min by y1)) \<le> sqDist bx by qx qy"
    unfolding sqDist_def
    by (intro add_mono clamp_nearest)
qed

lemma hitsPipes_iff:
  "hitsPipes bx by ps \<longleftrightarrow> (\<exists>p\<in>set ps. hitsTop bx by p \<or> hitsBot bx by p)"
  by (induction ps) auto

lemma hitsTop_sqDistFl:
  "hitsTop bx by p \<longleftrightarrow>
     sqDistFl bx by (max (pipe_x p) (min bx (jsAdd (pipe_x p) PIPE_W)))
       (max 0 (min by (gapTop p)))
       < jsMul BIRD_RADIUS BIRD_RADIUS"
  by (simp add: hitsTop_def sqDistFl_def Let_def)

lemma hitsBot_sqDistFl:
  "hitsBot bx by p \<longleftrightarrow>
     sqDistFl bx by (max (pipe_x p) (min bx (jsAdd (pipe_x p) PIPE_W)))
       (max (gapBot p) (min by GROUND_Y))
       < jsMul BIRD_RADIUS BIRD_RADIUS"
  by (simp add: hitsBot_def sqDistFl_def Let_def)

lemma samplePipe_fields:
  "pipe_x samplePipe = 33" "\<not> scored samplePipe" "gapTop samplePipe = 186"
  "gapBot samplePipe = 334"
  by (simp_all add: samplePipe_def createPipe_def Let_def jsAdd_def jsSub_def jsMul_def
      GROUND_Y_def PIPE_GAP_def PIPE_SPAWN_X_def fl_numeral)

lemma sampleGrazing_sum: "jsAdd (bird_y sampleGrazing) BIRD_RADIUS = 520"
proof -
  have "fl (506 - 1 / 2 ^ 44 + 14) = of_int 4573968371548160 * 2 powi (9 - 52)"
    by (rule fl_tie) simp_all
  then show ?thesis by (simp add: jsAdd_def sampleGrazing_def BIRD_RADIUS_def)
qed

lemma sampleCorner_misses:
  "\<not> hitsTop (bird_x sampleCorner) (bird_y sampleCorner) sampleCornerPipe"
  "\<not> hitsBot (bird_x sampleCorner) (bird_y sampleCorner) sampleCornerPipe"
proof -
  have r: "jsAdd (20043556230933 / 1099511627776) PIPE_W = 83815230641941 / 1099511627776"
  proof -
    have "fl (20043556230933 / 1099511627776 + 58) = of_int 5364174761084224 * 2 powi (6 - 52)"
      by (rule fl_near) simp_all
    then show ?thesis by (simp add: jsAdd_def PIPE_W_def)
  qed
  have dx: "jsSub 90 (83815230641941 / 1099511627776) = 15140815857899 / 1099511627776"
  proof -
    have "fl (90 - 83815230641941 / 1099511627776) = of_int 7752097719244288 * 2 powi (3 - 52)"
      by (rule fl_near) simp_all
    then show ?thesis by (simp add: jsSub_def)
  qed
  have dy: "jsSub (6633119328222429 / 35184372088832) 186 = 88826119699677 / 35184372088832"
  proof -
    have "fl (6633119328222429 / 35184372088832 - 186) = of_int 5684871660779328 * 2 powi (1 - 52)"
      by (rule fl_near) simp_all
    then show ?thesis by (simp add: jsSub_def)
  qed
  have sx: "jsMul (15140815857899 / 1099511627776) (15140815857899 / 1099511627776) = 3335943690658399 / 17592186044416"
  proof -
    have "fl (15140815857899 / 1099511627776 * (15140815857899 / 1099511627776)) = of_int 6671887381316798 * 2 powi (7 - 52)"
      by (rule fl_near) simp_all
    then show ?thesis by (simp add: jsMul_def)
  qed
  have sy: "jsMul (88826119699677 / 35184372088832) (88826119699677 / 35184372088832) = 7175985539016753 / 1125899906842624"
  proof -
    have "fl (88826119699677 / 35184372088832 * (88826119699677 / 35184372088832)) = of_int 7175985539016753 * 2 powi (2 - 52)"
      by (rule fl_near) simp_all
    then show ?thesis by (simp add: jsMul_def)
  qed
  have sm: "jsAdd (3335943690658399 / 17592186044416) (7175985539016753 / 1125899906842624) = 196"
  proof -
    have "fl (3335943690658399 / 17592186044416 + 7175985539016753 / 1125899906842624) = of_int 6896136929411072 * 2 powi (7 - 52)"
      by (rule fl_near) simp_all
    then show ?thesis by (simp add: jsAdd_def)
  qed
  have dyb: "jsSub (6633119328222429 / 35184372088832) 334 = - (5118460949447459 / 35184372088832)"
  proof -
    have "fl (334 - 6633119328222429 / 35184372088832) = of_int 5118460949447459 * 2 powi (7 - 52)"
      by (rule fl_near) simp_all
    then have "fl (- (334 - 6633119328222429 / 35184372088832)) = - (5118460949447459 / 35184372088832)" by (simp add: fl_minus)
    then show ?thesis by (simp add: jsSub_def)
  qed
  have syb: "jsMul (- (5118460949447459 / 35184372088832)) (- (5118460949447459 / 35184372088832)) = 5817267221490359 / 274877906944"
  proof -
    have "fl (5118460949447459 / 35184372088832 * (5118460949447459 / 35184372088832)) = of_int 5817267221490359 * 2 powi (14 - 52)"
      by (rule fl_near) simp_all
    then show ?thesis by (simp add: jsMul_def)
  qed
  have smb: "jsAdd (3335943690658399 / 17592186044416) (5817267221490359 / 274877906944) = 91709239713389 / 4294967296"
  proof -
    have "fl (3335943690658399 / 17592186044416 + 5817267221490359 / 274877906944) = of_int 5869391341656896 * 2 powi (14 - 52)"
      by (rule fl_near) simp_all
    then show ?thesis by (simp add: jsAdd_def)
  qed
  show "\<not> hitsTop (bird_x sampleCorner) (bird_y sampleCorner) sampleCornerPipe"
    by (simp add: hitsTop_def Let_def sampleCorner_def sampleCornerPipe_def createBird_def
        BIRD_X_def radius_squared r dx dy sx sy sm)
  show "\<not> hitsBot (bird_x sampleCorner) (bird_y sampleCorner) sampleCornerPipe"
    by (simp add: hitsBot_def Let_def sampleCorner_def sampleCornerPipe_def createBird_def
        BIRD_X_def GROUND_Y_def radius_squared r dx dyb sx syb smb)
qed

lemma sampleCorner_doubles:
  "isDouble (bird_y sampleGrazing)" "isDouble (bird_y sampleCorner)"
  "isDouble (pipe_x sampleCornerPipe)"
proof -
  show "isDouble (bird_y sampleGrazing)"
    unfolding sampleGrazing_def by (subst isDouble_eval [where e = 8]) simp_all
  show "isDouble (bird_y sampleCorner)"
    unfolding sampleCorner_def by (subst isDouble_eval [where e = 7]) simp_all
  show "isDouble (pipe_x sampleCornerPipe)"
    unfolding sampleCornerPipe_def by (subst isDouble_eval [where e = 4]) simp_all
qed

text \<open>
  Claim C6 fails on the code, which computes in doubles. (1) The centre \<open>y\<close> of the bird
  is the double just below 506: the bottom edge \<open>y + 14\<close> is strictly above the ground
  and the top edge is clear of the ceiling, but the sum rounds to 520 and
  \<open>checkCollision\<close>, with no pipes, reports a collision. (2) The bird is right of and
  below the lower right corner of a top pipe, the corner being the closest point of the
  rectangle; all three coordinates are doubles and the right edge \<open>pipe_x + PIPE_W\<close> is
  computed without rounding. The squared distance from the centre to the corner is
  strictly less than \<open>BIRD_RADIUS\<^sup>2\<close>, yet neither rectangle test nor \<open>checkCollision\<close>
  reports a collision.
\<close>

theorem collision_not_exact:
  "isDouble (bird_y sampleGrazing) \<and>
   bird_y sampleGrazing + BIRD_RADIUS < GROUND_Y \<and>
   0 < bird_y sampleGrazing - BIRD_RADIUS \<and>
   checkCollision sampleGrazing [] \<and>
   isDouble (bird_y sampleCorner) \<and> isDouble (pipe_x sampleCornerPipe) \<and>
   jsAdd (pipe_x sampleCornerPipe) PIPE_W = pipe_x sampleCornerPipe + PIPE_W \<and>
   pipe_x sampleCornerPipe + PIPE_W < bird_x sampleCorner \<and>
   gapTop sampleCornerPipe < bird_y sampleCorner \<and>
   sqDist (bird_x sampleCorner) (bird_y sampleCorner)
     (pipe_x sampleCornerPipe + PIPE_W) (gapTop sampleCornerPipe)
     < BIRD_RADIUS * BIRD_RADIUS \<and>
   \<not> hitsTop (bird_x sampleCorner) (bird_y sampleCorner) sampleCornerPipe \<and>
   \<not> hitsBot (bird_x sampleCorner) (bird_y sampleCorner) sampleCornerPipe \<and>
   \<not> checkCollision sampleCorner [sampleCornerPipe]"
proof -
  have g: "checkCollision sampleGrazing []"
    by (simp add: checkCollision_def Let_def sampleGrazing_sum GROUND_Y_def)
  have e: "bird_y sampleGrazing + BIRD_RADIUS < GROUND_Y"
    "0 < bird_y sampleGrazing - BIRD_RADIUS"
    by (simp_all add: sampleGrazing_def BIRD_RADIUS_def GROUND_Y_def)
  have r: "jsAdd (pipe_x sampleCornerPipe) PIPE_W = pipe_x sampleCornerPipe + PIPE_W"
  proof -
    have "fl (pipe_x sampleCornerPipe + PIPE_W) = of_int 5364174761084224 * 2 powi (6 - 52)"
      unfolding sampleCornerPipe_def PIPE_W_def by (rule fl_near) simp_all
    then show ?thesis by (simp add: jsAdd_def sampleCornerPipe_def PIPE_W_def)
  qed
  have c: "pipe_x sampleCornerPipe + PIPE_W < bird_x sampleCorner"
    "gapTop sampleCornerPipe < bird_y sampleCorner"
    "sqDist (bird_x sampleCorner) (bird_y sampleCorner)
       (pipe_x sampleCornerPipe + PIPE_W) (gapTop sampleCornerPipe)
       < BIRD_RADIUS * BIRD_RADIUS"
    by (simp_all add: sampleCorner_def sampleCornerPipe_def createBird_def sqDist_def
        CFG_defs)
  have a: "jsAdd (bird_y sampleCorner) BIRD_RADIUS < GROUND_Y"
  proof -
    have "fl (bird_y sampleCorner + BIRD_RADIUS) \<le> 460"
      by (intro fl_le doubles_of_the_game)
        (simp_all add: sampleCorner_def BIRD_RADIUS_def)
    then show ?thesis by (simp add: jsAdd_def GROUND_Y_def)
  qed
  have b: "0 < jsSub (bird_y sampleCorner) BIRD_RADIUS"
  proof -
    have "60 \<le> fl (bird_y sampleCorner - BIRD_RADIUS)"
      by (intro fl_ge doubles_of_the_game)
        (simp_all add: sampleCorner_def BIRD_RADIUS_def)
    then show ?thesis by (simp add: jsSub_def)
  qed
  have n: "\<not> checkCollision sampleCorner [sampleCornerPipe]"
    using a b sampleCorner_misses by (simp add: checkCollision_def Let_def)
  from g e r c n sampleCorner_misses sampleCorner_doubles show ?thesis by blast
qed

text \<open>
  Claim C6 as amended. With the centre at \<open>(90, 500)\<close>, radius 14, \<open>GROUND_Y = 520\<close> and no
  pipes \<open>checkCollision\<close> is false; with the centre at \<open>(90, 506)\<close> it is true. The
  comparisons are inclusive and made on sums rounded to doubles: \<open>checkCollision\<close> is
  true exactly when \<open>y + BIRD_RADIUS\<close>, rounded, is \<open>\<ge> GROUND_Y\<close>, or \<open>y - BIRD_RADIUS\<close>,
  rounded, is \<open>\<le> 0\<close>, or some pipe is hit. So a bottom edge at or below the ground, or a
  top edge at or above the ceiling, always collides, and a ground collision means a bottom
  edge within \<open>2\<^sup>-\<^sup>4\<^sup>4\<close> of the ground. A pipe's top rectangle (when \<open>0 \<le> gapTop\<close> and the
  rounded right edge is not left of the left edge) is hit exactly when the squared
  distance from the centre to the closest point of the rectangle, computed in double
  arithmetic, is strictly less than \<open>BIRD_RADIUS\<^sup>2 = 196\<close>, and likewise its bottom
  rectangle (when \<open>gapBot \<le> GROUND_Y\<close>); the right edge of both rectangles is
  \<open>pipe_x + PIPE_W\<close> rounded.
\<close>

theorem collision_boundaries_rounded:
  "bird_x createBird = 90 \<and> BIRD_RADIUS = 14 \<and> GROUND_Y = 520 \<and>
   \<not> checkCollision (createBird\<lparr> bird_y := 500 \<rparr>) [] \<and>
   checkCollision (createBird\<lparr> bird_y := 506 \<rparr>) [] \<and>
   (checkCollision b ps \<longleftrightarrow>
      GROUND_Y \<le> jsAdd (bird_y b) BIRD_RADIUS \<or> jsSub (bird_y b) BIRD_RADIUS \<le> 0 \<or>
      (\<exists>p\<in>set ps. hitsTop (bird_x b) (bird_y b) p \<or> hitsBot (bird_x b) (bird_y b) p)) \<and>
   (GROUND_Y \<le> bird_y b + BIRD_RADIUS \<or> bird_y b - BIRD_RADIUS \<le> 0 \<longrightarrow>
      checkCollision b ps) \<and>
   (GROUND_Y \<le> jsAdd (bird_y b) BIRD_RADIUS \<longrightarrow>
      GROUND_Y - 1 / 2 ^ 44 \<le> bird_y b + BIRD_RADIUS) \<and>
   jsMul BIRD_RADIUS BIRD_RADIUS = 196 \<and>
   (0 \<le> gapTop p \<and> pipe_x p \<le> jsAdd (pipe_x p) PIPE_W \<longrightarrow>
      (\<exists>cx cy. inRect (pipe_x p) 0 (jsAdd (pipe_x p) PIPE_W) (gapTop p) cx cy \<and>
         (\<forall>qx qy. inRect (pipe_x p) 0 (jsAdd (pipe_x p) PIPE_W) (gapTop p) qx qy \<longrightarrow>
                  sqDist ax ay cx cy \<le> sqDist ax ay qx qy) \<and>
         (hitsTop ax ay p \<longleftrightarrow>
            sqDistFl ax ay cx cy < jsMul BIRD_RADIUS BIRD_RADIUS))) \<and>
   (gapBot p \<le> GROUND_Y \<and> pipe_x p \<le> jsAdd (pipe_x p) PIPE_W \<longrightarrow>
      (\<exists>cx cy. inRect (pipe_x p) (gapBot p) (jsAdd (pipe_x p) PIPE_W) GROUND_Y cx cy \<and>
         (\<forall>qx qy. inRect (pipe_x p) (gapBot p) (jsAdd (pipe_x p) PIPE_W) GROUND_Y qx qy \<longrightarrow>
                  sqDist ax ay cx cy \<le> sqDist ax ay qx qy) \<and>
         (hitsBot ax ay p \<longleftrightarrow>
            sqDistFl ax ay cx cy < jsMul BIRD_RADIUS BIRD_RADIUS)))"
proof (intro conjI impI)
  show "bird_x createBird = 90" by (simp add: createBird_def BIRD_X_def)
  show "BIRD_RADIUS = 14" by (simp add: BIRD_RADIUS_def)
  show "GROUND_Y = 520" by (simp add: GROUND_Y_def)
  show "\<not> checkCollision (createBird\<lparr> bird_y := 500 \<rparr>) []"
    by (simp add: checkCollision_def createBird_def Let_def jsAdd_def jsSub_def
        BIRD_RADIUS_def GROUND_Y_def fl_numeral)
  show "checkCollision (createBird\<lparr> bird_y := 506 \<rparr>) []"
    by (simp add: checkCollision_def createBird_def Let_def jsAdd_def jsSub_def
        BIRD_RADIUS_def GROUND_Y_def fl_numeral)
  show "checkCollision b ps \<longleftrightarrow>
      GROUND_Y \<le> jsAdd (bird_y b) BIRD_RADIUS \<or> jsSub (bird_y b) BIRD_RADIUS \<le> 0 \<or>
      (\<exists>p\<in>set ps. hitsTop (bird_x b) (bird_y b) p \<or> hitsBot (bird_x b) (bird_y b) p)"
    by (simp add: checkCollision_def Let_def hitsPipes_iff)
  show "jsMul BIRD_RADIUS BIRD_RADIUS = 196" by (rule radius_squared)
next
  assume "GROUND_Y \<le> bird_y b + BIRD_RADIUS \<or> bird_y b - BIRD_RADIUS \<le> 0"
  then show "checkCollision b ps"
    using checkCollision_ground [of b ps] checkCollision_ceiling [of b ps] by blast
next
  assume "GROUND_Y \<le> jsAdd (bird_y b) BIRD_RADIUS"
  then show "GROUND_Y - 1 / 2 ^ 44 \<le> bird_y b + BIRD_RADIUS"
    by (rule ground_up_to_rounding)
next
  assume g: "0 \<le> gapTop p \<and> pipe_x p \<le> jsAdd (pipe_x p) PIPE_W"
  then have w: "pipe_x p \<le> jsAdd (pipe_x p) PIPE_W" and h: "0 \<le> gapTop p" by simp_all
  show "\<exists>cx cy. inRect (pipe_x p) 0 (jsAdd (pipe_x p) PIPE_W) (gapTop p) cx cy \<and>
         (\<forall>qx qy. inRect (pipe_x p) 0 (jsAdd (pipe_x p) PIPE_W) (gapTop p) qx qy \<longrightarrow>
                  sqDist ax ay cx cy \<le> sqDist ax ay qx qy) \<and>
         (hitsTop ax ay p \<longleftrightarrow>
            sqDistFl ax ay cx cy < jsMul BIRD_RADIUS BIRD_RADIUS)"
    using nearest_in_rect [OF w h] hitsTop_sqDistFl [of ax ay p] by blast
next
  assume g: "gapBot p \<le> GROUND_Y \<and> pipe_x p \<le> jsAdd (pipe_x p) PIPE_W"
  then have w: "pipe_x p \<le> jsAdd (pipe_x p) PIPE_W" and h: "gapBot p \<le> GROUND_Y"
    by simp_all
  show "\<exists>cx cy. inRect (pipe_x p) (gapBot p) (jsAdd (pipe_x p) PIPE_W) GROUND_Y cx cy \<and>
         (\<forall>qx qy. inRect (pipe_x p) (gapBot p) (jsAdd (pipe_x p) PIPE_W) GROUND_Y qx qy \<longrightarrow>
                  sqDist ax ay cx cy \<le> sqDist ax ay qx qy) \<and>
         (hitsBot ax ay p \<longleftrightarrow>
            sqDistFl ax ay cx cy < jsMul BIRD_RADIUS BIRD_RADIUS)"
    using nearest_in_rect [OF w h] hitsBot_sqDistFl [of ax ay p] by blast
qed

theorem collision_boundaries_rounded_witness:
  "0 \<le> gapTop (samplePipe\<lparr> pipe_x := 80 \<rparr>) \<and>
   pipe_x (samplePipe\<lparr> pipe_x := 80 \<rparr>)
     \<le> jsAdd (pipe_x (samplePipe\<lparr> pipe_x := 80 \<rparr>)) PIPE_W \<and>
   gapBot (samplePipe\<lparr> pipe_x := 80 \<rparr>) \<le> GROUND_Y \<and>
   GROUND_Y \<le> bird_y (createBird\<lparr> bird_y := 506 \<rparr>) + BIRD_RADIUS \<and>
   GROUND_Y \<le> jsAdd (bird_y (createBird\<lparr> bird_y := 506 \<rparr>)) BIRD_RADIUS \<and>
   checkCollision (createBird\<lparr> bird_y := 506 \<rparr>) [samplePipe\<lparr> pipe_x := 80 \<rparr>] \<and>
   GROUND_Y - 1 / 2 ^ 44 \<le> bird_y (createBird\<lparr> bird_y := 506 \<rparr>) + BIRD_RADIUS \<and>
   hitsTop 90 195 (samplePipe\<lparr> pipe_x := 80 \<rparr>) \<and>
   checkCollision (createBird\<lparr> bird_y := 195 \<rparr>) [samplePipe\<lparr> pipe_x := 80 \<rparr>] \<and>
   \<not> checkCollision (createBird\<lparr> bird_y := 200 \<rparr>) [samplePipe\<lparr> pipe_x := 80 \<rparr>] \<and>
   (\<exists>cx cy. inRect 80 0 138 186 cx cy \<and>
      (\<forall>qx qy. inRect 80 0 138 186 qx qy \<longrightarrow> sqDist 90 195 cx cy \<le> sqDist 90 195 qx qy) \<and>
      sqDistFl 90 195 cx cy < 196) \<and>
   (\<exists>cx cy. inRect 80 334 138 520 cx cy \<and>
      (\<forall>qx qy. inRect 80 334 138 520 qx qy \<longrightarrow> sqDist 90 195 cx cy \<le> sqDist 90 195 qx qy) \<and>
      \<not> sqDistFl 90 195 cx cy < 196)"
proof -
  let ?P = "samplePipe\<lparr> pipe_x := 80 \<rparr>"
  let ?B = "createBird\<lparr> bird_y := 506 \<rparr>"
  have e: "jsAdd 80 PIPE_W = 138" by (simp add: jsAdd_def PIPE_W_def fl_numeral)
  have g: "0 \<le> gapTop ?P \<and> pipe_x ?P \<le> jsAdd (pipe_x ?P) PIPE_W"
    "gapBot ?P \<le> GROUND_Y \<and> pipe_x ?P \<le> jsAdd (pipe_x ?P) PIPE_W"
    by (simp_all add: samplePipe_fields GROUND_Y_def e)
  have ht: "hitsTop 90 195 ?P"
    by (simp add: hitsTop_def Let_def samplePipe_fields PIPE_W_def jsSub_def jsMul_def jsAdd_def
        BIRD_RADIUS_def fl_numeral fl_0)
  have hb: "\<not> hitsBot 90 195 ?P"
    by (simp add: hitsBot_def Let_def samplePipe_fields PIPE_W_def jsSub_def jsMul_def jsAdd_def
        BIRD_RADIUS_def GROUND_Y_def fl_numeral fl_0 fl_minus)
  have nt: "\<not> hitsTop 90 200 ?P" "\<not> hitsBot 90 200 ?P"
    by (simp_all add: hitsTop_def hitsBot_def Let_def samplePipe_fields PIPE_W_def jsSub_def
        jsMul_def jsAdd_def BIRD_RADIUS_def GROUND_Y_def fl_numeral fl_0 fl_minus)
  have bx: "bird_x (createBird\<lparr> bird_y := y \<rparr>) = 90"
    "bird_y (createBird\<lparr> bird_y := y \<rparr>) = y" for y
    by (simp_all add: createBird_def BIRD_X_def)
  have s: "jsAdd 195 BIRD_RADIUS = 209" "jsSub 195 BIRD_RADIUS = 181"
    "jsAdd 200 BIRD_RADIUS = 214" "jsSub 200 BIRD_RADIUS = 186"
    "jsAdd 506 BIRD_RADIUS = 520"
    by (simp_all add: jsAdd_def jsSub_def BIRD_RADIUS_def fl_numeral)
  have b1: "GROUND_Y \<le> bird_y ?B + BIRD_RADIUS \<or> bird_y ?B - BIRD_RADIUS \<le> 0"
    "GROUND_Y \<le> jsAdd (bird_y ?B) BIRD_RADIUS"
    by (simp add: bx GROUND_Y_def BIRD_RADIUS_def) (simp add: bx s GROUND_Y_def)
  note t = collision_boundaries_rounded [where p = ?P and ax = 90 and ay = 195]
  note t6a = collision_boundaries_rounded [where b = "createBird\<lparr> bird_y := 195 \<rparr>"
      and ps = "[?P]", THEN conjunct2, THEN conjunct2, THEN conjunct2, THEN conjunct2,
      THEN conjunct2, THEN conjunct1]
  note t6b = collision_boundaries_rounded [where b = "createBird\<lparr> bird_y := 200 \<rparr>"
      and ps = "[?P]", THEN conjunct2, THEN conjunct2, THEN conjunct2, THEN conjunct2,
      THEN conjunct2, THEN conjunct1]
  note t7 = collision_boundaries_rounded [where b = ?B and ps = "[?P]",
      THEN conjunct2, THEN conjunct2, THEN conjunct2, THEN conjunct2,
      THEN conjunct2, THEN conjunct2, THEN conjunct1, THEN mp, OF b1(1)]
  note t8 = collision_boundaries_rounded [where b = ?B,
      THEN conjunct2, THEN conjunct2, THEN conjunct2, THEN conjunct2,
      THEN conjunct2, THEN conjunct2, THEN conjunct2, THEN conjunct1, THEN mp, OF b1(2)]
  note t10 = t [THEN conjunct2, THEN conjunct2, THEN conjunct2, THEN conjunct2,
      THEN conjunct2, THEN conjunct2, THEN conjunct2, THEN conjunct2, THEN conjunct2,
      THEN conjunct1, THEN mp, OF g(1)]
  note t11 = t [THEN conjunct2, THEN conjunct2, THEN conjunct2, THEN conjunct2,
      THEN conjunct2, THEN conjunct2, THEN conjunct2, THEN conjunct2, THEN conjunct2,
      THEN conjunct2, THEN mp, OF g(2)]
  have c1: "checkCollision (createBird\<lparr> bird_y := 195 \<rparr>) [?P]"
    using t6a ht by (simp add: bx)
  have c2: "\<not> checkCollision (createBird\<lparr> bird_y := 200 \<rparr>) [?P]"
    using t6b nt by (simp add: bx s GROUND_Y_def)
  from t10 ht have e1: "\<exists>cx cy. inRect 80 0 138 186 cx cy \<and>
      (\<forall>qx qy. inRect 80 0 138 186 qx qy \<longrightarrow> sqDist 90 195 cx cy \<le> sqDist 90 195 qx qy) \<and>
      sqDistFl 90 195 cx cy < 196"
    by (simp add: samplePipe_fields e radius_squared)
  from t11 hb have e2: "\<exists>cx cy. inRect 80 334 138 520 cx cy \<and>
      (\<forall>qx qy. inRect 80 334 138 520 qx qy \<longrightarrow> sqDist 90 195 cx cy \<le> sqDist 90 195 qx qy) \<and>
      \<not> sqDistFl 90 195 cx cy < 196"
    by (simp add: samplePipe_fields e radius_squared GROUND_Y_def)
  have g': "0 \<le> gapTop ?P" "pipe_x ?P \<le> jsAdd (pipe_x ?P) PIPE_W" "gapBot ?P \<le> GROUND_Y"
    using g by simp_all
  have b1': "GROUND_Y \<le> bird_y ?B + BIRD_RADIUS"
    by (simp add: bx GROUND_Y_def BIRD_RADIUS_def)
  from g' b1' b1(2) t7 t8 ht c1 c2 e1 e2 show ?thesis by blast
qed

subsection \<open>A pipe followed over its ticks\<close>

text \<open>
  \<open>(pipeTick ^^ k) p\<close> is the pipe \<open>p\<close> after \<open>k\<close> ticks and \<open>pipeGain ((pipeTick ^^ k) p)\<close>
  is what tick \<open>k + 1\<close> adds to the score on its account. The right edge moves left by
  \<open>PIPE_SPEED\<close> per tick, so once it is left of the bird it stays there.
\<close>

lemma pipeTick_fields:
  "pipe_x (pipeTick p) = pipe_x p - PIPE_SPEED"
  "gapTop (pipeTick p) = gapTop p"
  "gapBot (pipeTick p) = gapBot p"
  "scored (pipeTick p) = (scored p \<or> pipe_x p - PIPE_SPEED + PIPE_W < BIRD_X)"
  by (auto simp add: pipeTick_def movePipe_def shouldScore_def Let_def)

lemma pipeGain_eq:
  "pipeGain p = (if \<not> scored p \<and> pipe_x p - PIPE_SPEED + PIPE_W < BIRD_X then 1 else 0)"
  by (simp add: pipeGain_def movePipe_def shouldScore_def)

lemma pipeTick_iter_fields:
  "pipe_x ((pipeTick ^^ k) p) = pipe_x p - of_nat k * PIPE_SPEED"
  "gapTop ((pipeTick ^^ k) p) = gapTop p"
  "gapBot ((pipeTick ^^ k) p) = gapBot p"
  by (induction k) (simp_all add: pipeTick_fields algebra_simps)

lemma edge_step:
  "a - of_nat (Suc k) * PIPE_SPEED + w = (a - of_nat k * PIPE_SPEED + w) - PIPE_SPEED"
  by (simp add: algebra_simps)

lemma edge_mono:
  assumes "a - of_nat k * PIPE_SPEED + w < c"
  shows "a - of_nat (Suc k) * PIPE_SPEED + w < c"
proof -
  have "0 < PIPE_SPEED" by (simp add: PIPE_SPEED_def)
  with assms show ?thesis unfolding edge_step by linarith
qed

lemma pipeTick_iter_edge:
  "pipe_x ((pipeTick ^^ k) p) - PIPE_SPEED + PIPE_W =
   pipe_x p - of_nat (Suc k) * PIPE_SPEED + PIPE_W"
  unfolding edge_step by (simp add: pipeTick_iter_fields)

lemma pipeTick_iter_scored:
  "scored ((pipeTick ^^ k) p) =
     (scored p \<or> (0 < k \<and> pipe_x p - of_nat k * PIPE_SPEED + PIPE_W < BIRD_X))"
proof (induction k)
  case 0
  then show ?case by simp
next
  case (Suc k)
  have "scored ((pipeTick ^^ Suc k) p) =
      (scored ((pipeTick ^^ k) p) \<or>
       pipe_x p - of_nat (Suc k) * PIPE_SPEED + PIPE_W < BIRD_X)"
    by (simp only: funpow.simps o_apply pipeTick_fields pipeTick_iter_edge)
  with Suc.IH edge_mono [of "pipe_x p" k PIPE_W BIRD_X] show ?case by blast
qed

lemma pipeGain_iter:
  assumes "\<not> scored p" "\<not> pipe_x p + PIPE_W < BIRD_X"
  shows "pipeGain ((pipeTick ^^ k) p) =
     (if pipe_x p - of_nat (Suc k) * PIPE_SPEED + PIPE_W < BIRD_X \<and>
         \<not> pipe_x p - of_nat k * PIPE_SPEED + PIPE_W < BIRD_X then 1 else 0)"
proof -
  have s: "scored ((pipeTick ^^ k) p) \<longleftrightarrow>
      pipe_x p - of_nat k * PIPE_SPEED + PIPE_W < BIRD_X"
  proof (cases "0 < k")
    case True
    with assms(1) show ?thesis by (simp add: pipeTick_iter_scored)
  next
    case False
    with assms show ?thesis by simp
  qed
  show ?thesis
    unfolding pipeGain_eq pipeTick_iter_edge s
    using edge_mono [of "pipe_x p" k PIPE_W BIRD_X] by auto
qed

lemma pipeGain_total:
  assumes "\<not> scored p" "\<not> pipe_x p + PIPE_W < BIRD_X"
  shows "(\<Sum>j<n. pipeGain ((pipeTick ^^ j) p)) =
     (if pipe_x p - of_nat n * PIPE_SPEED + PIPE_W < BIRD_X then 1 else 0)"
proof (induction n)
  case 0
  then show ?case using assms by simp
next
  case (Suc n)
  have "(\<Sum>j<Suc n. pipeGain ((pipeTick ^^ j) p)) =
      (\<Sum>j<n. pipeGain ((pipeTick ^^ j) p)) + pipeGain ((pipeTick ^^ n) p)"
    by (simp only: sum.lessThan_Suc)
  also have "\<dots> = (if pipe_x p - of_nat n * PIPE_SPEED + PIPE_W < BIRD_X then 1 else 0) +
      pipeGain ((pipeTick ^^ n) p)"
    by (simp only: Suc.IH)
  also have "\<dots> = (if pipe_x p - of_nat n * PIPE_SPEED + PIPE_W < BIRD_X then 1 else 0) +
      (if pipe_x p - of_nat (Suc n) * PIPE_SPEED + PIPE_W < BIRD_X \<and>
          \<not> pipe_x p - of_nat n * PIPE_SPEED + PIPE_W < BIRD_X then 1 else 0)"
    by (simp only: pipeGain_iter [OF assms])
  also have "\<dots> = (if pipe_x p - of_nat (Suc n) * PIPE_SPEED + PIPE_W < BIRD_X then 1 else 0)"
    using edge_mono [of "pipe_x p" n PIPE_W BIRD_X] by (auto simp del: of_nat_Suc)
  finally show ?case .
qed

lemma pipeGain_scored: "scored p \<Longrightarrow> pipeGain ((pipeTick ^^ k) p) = 0"
  by (simp add: pipeGain_eq pipeTick_iter_scored)

lemma update_pipes_score:
  assumes "phase s = PLAYING"
  shows "\<exists>s'. update dt now rnd s = Inr s' \<and>
     pipes s' = filter (\<lambda>q. \<not> offScreen q) (map pipeTick (pipes (updateWorld dt now rnd s))) \<and>
     score s' = score s + sum_list (map pipeGain (pipes (updateWorld dt now rnd s)))"
  by (simp add: update_playing [OF assms] Let_def killBird_fields updateWorld_fields)

lemma createPipe_fresh:
  "\<not> scored (createPipe rnd)" "\<not> pipe_x (createPipe rnd) + PIPE_W < BIRD_X"
  "pipe_x (createPipe rnd) = 420"
  by (simp_all add: createPipe_def Let_def CFG_defs)

lemma update_pipes_score2:
  assumes "phase s = PLAYING"
  shows "\<exists>s'. update dt now rnd s = Inr s' \<and>
     pipes s' = filter (\<lambda>q. \<not> offScreen q) (map pipeTick
        (pipes s @ (if now - lastPipeTime s \<ge> PIPE_INTERVAL then [createPipe rnd] else []))) \<and>
     score s' = score s + sum_list (map pipeGain
        (pipes s @ (if now - lastPipeTime s \<ge> PIPE_INTERVAL then [createPipe rnd] else [])))"
  using update_pipes_score [OF assms, of dt now rnd] by (simp only: updateWorld_fields)

text \<open>
  Claim C1. A tick in \<open>PLAYING\<close> returns and adds to the score exactly 1 for each pipe
  (the pipe spawned in this tick included) that is unscored and whose right edge, after
  this tick's move, is strictly left of \<open>BIRD_X\<close>; the list afterwards holds every pipe
  moved, and flagged if it counted, less the ones off screen, so every pipe left in the
  list with its right edge left of \<open>BIRD_X\<close> is flagged. Followed over its ticks, a pipe that is
  flagged never adds anything again, and an unflagged pipe not yet past the bird (as
  every pipe from \<open>createPipe\<close> is) adds 1 in exactly one tick, the first one in which
  its right edge is strictly left of \<open>BIRD_X\<close>: over any \<open>n\<close> ticks it has added 1 if
  that tick is among them and 0 otherwise.
\<close>

theorem score_once_per_pipe:
  "(phase s = PLAYING \<longrightarrow>
      (\<exists>s'. update dt now rnd s = Inr s' \<and>
         score s' = score s + sum_list (map pipeGain
           (pipes s @ (if now - lastPipeTime s \<ge> PIPE_INTERVAL then [createPipe rnd] else []))) \<and>
         pipes s' = filter (\<lambda>q. \<not> offScreen q) (map pipeTick
           (pipes s @ (if now - lastPipeTime s \<ge> PIPE_INTERVAL then [createPipe rnd] else []))) \<and>
         (\<forall>r\<in>set (pipes s'). pipe_x r + PIPE_W < BIRD_X \<longrightarrow> scored r))) \<and>
   pipeGain p = (if \<not> scored p \<and> pipe_x (movePipe p) + PIPE_W < BIRD_X then 1 else 0) \<and>
   pipe_x ((pipeTick ^^ k) p) + PIPE_W = pipe_x p + PIPE_W - of_nat k * PIPE_SPEED \<and>
   (scored q \<longrightarrow> pipeGain ((pipeTick ^^ k) q) = 0) \<and>
   (\<not> scored p \<and> \<not> pipe_x p + PIPE_W < BIRD_X \<longrightarrow>
      pipeGain ((pipeTick ^^ k) p) =
        (if pipe_x p - of_nat (Suc k) * PIPE_SPEED + PIPE_W < BIRD_X \<and>
            \<not> pipe_x p - of_nat k * PIPE_SPEED + PIPE_W < BIRD_X then 1 else 0) \<and>
      (\<Sum>j<n. pipeGain ((pipeTick ^^ j) p)) =
        (if pipe_x p - of_nat n * PIPE_SPEED + PIPE_W < BIRD_X then 1 else 0)) \<and>
   \<not> scored (createPipe rnd) \<and> \<not> pipe_x (createPipe rnd) + PIPE_W < BIRD_X \<and>
   pipeTick p =
     (movePipe p)\<lparr> scored := scored p \<or> pipe_x (movePipe p) + PIPE_W < BIRD_X \<rparr>"
proof (intro conjI impI)
  assume p: "phase s = PLAYING"
  from update_pipes_score2 [OF p, of dt now rnd] obtain s' where
    u: "update dt now rnd s = Inr s'" and
    ps: "pipes s' = filter (\<lambda>q. \<not> offScreen q) (map pipeTick
        (pipes s @ (if now - lastPipeTime s \<ge> PIPE_INTERVAL then [createPipe rnd] else [])))" and
    sc: "score s' = score s + sum_list (map pipeGain
        (pipes s @ (if now - lastPipeTime s \<ge> PIPE_INTERVAL then [createPipe rnd] else [])))"
    by blast
  have "\<forall>r\<in>set (pipes s'). pipe_x r + PIPE_W < BIRD_X \<longrightarrow> scored r"
    unfolding ps by (auto simp add: pipeTick_fields)
  with u sc ps show "\<exists>s'. update dt now rnd s = Inr s' \<and>
         score s' = score s + sum_list (map pipeGain
           (pipes s @ (if now - lastPipeTime s \<ge> PIPE_INTERVAL then [createPipe rnd] else []))) \<and>
         pipes s' = filter (\<lambda>q. \<not> offScreen q) (map pipeTick
           (pipes s @ (if now - lastPipeTime s \<ge> PIPE_INTERVAL then [createPipe rnd] else []))) \<and>
         (\<forall>r\<in>set (pipes s'). pipe_x r + PIPE_W < BIRD_X \<longrightarrow> scored r)"
    by blast
next
  show "pipeGain p = (if \<not> scored p \<and> pipe_x (movePipe p) + PIPE_W < BIRD_X then 1 else 0)"
    by (simp add: pipeGain_def shouldScore_def movePipe_def)
  show "pipe_x ((pipeTick ^^ k) p) + PIPE_W = pipe_x p + PIPE_W - of_nat k * PIPE_SPEED"
    by (simp add: pipeTick_iter_fields)
  show "pipeTick p =
      (movePipe p)\<lparr> scored := scored p \<or> pipe_x (movePipe p) + PIPE_W < BIRD_X \<rparr>"
    by (simp add: pipeTick_def shouldScore_def movePipe_def Let_def)
  show "\<not> scored (createPipe rnd)" by (rule createPipe_fresh)
  show "\<not> pipe_x (createPipe rnd) + PIPE_W < BIRD_X" by (rule createPipe_fresh)
next
  assume "scored q"
  then show "pipeGain ((pipeTick ^^ k) q) = 0" by (rule pipeGain_scored)
next
  assume a: "\<not> scored p \<and> \<not> pipe_x p + PIPE_W < BIRD_X"
  then show "pipeGain ((pipeTick ^^ k) p) =
        (if pipe_x p - of_nat (Suc k) * PIPE_SPEED + PIPE_W < BIRD_X \<and>
            \<not> pipe_x p - of_nat k * PIPE_SPEED + PIPE_W < BIRD_X then 1 else 0)"
    using pipeGain_iter [of p k] by blast
  from a show "(\<Sum>j<n. pipeGain ((pipeTick ^^ j) p)) =
        (if pipe_x p - of_nat n * PIPE_SPEED + PIPE_W < BIRD_X then 1 else 0)"
    using pipeGain_total [of p n] by blast
qed

theorem score_once_per_pipe_witness:
  "phase (samplePlaying\<lparr> pipes := [samplePipe] \<rparr>) = PLAYING \<and>
   (\<exists>s'. update 16 1000 0 (samplePlaying\<lparr> pipes := [samplePipe] \<rparr>) = Inr s' \<and> score s' = 1) \<and>
   scored (samplePipe\<lparr> scored := True \<rparr>) \<and>
   pipeGain ((pipeTick ^^ 5) (samplePipe\<lparr> scored := True \<rparr>)) = 0 \<and>
   \<not> scored (createPipe 0) \<and> \<not> pipe_x (createPipe 0) + PIPE_W < BIRD_X \<and>
   pipeGain ((pipeTick ^^ 148) (createPipe 0)) = 0 \<and>
   pipeGain ((pipeTick ^^ 149) (createPipe 0)) = 1 \<and>
   pipeGain ((pipeTick ^^ 150) (createPipe 0)) = 0 \<and>
   (\<Sum>j<192. pipeGain ((pipeTick ^^ j) (createPipe 0))) = 1"
proof -
  let ?S = "samplePlaying\<lparr> pipes := [samplePipe] \<rparr>"
  have p: "phase ?S = PLAYING" by (simp add: samplePlaying_fields)
  have g: "pipeGain samplePipe = 1"
    by (simp add: pipeGain_def shouldScore_def movePipe_def samplePipe_fields CFG_defs)
  from score_once_per_pipe [of ?S 16 1000 0, THEN conjunct1] p g
  have a: "\<exists>s'. update 16 1000 0 ?S = Inr s' \<and> score s' = 1"
    by (auto simp add: samplePlaying_fields PIPE_INTERVAL_def)
  have f: "\<not> scored (createPipe 0) \<and> \<not> pipe_x (createPipe 0) + PIPE_W < BIRD_X"
    by (simp add: createPipe_fresh CFG_defs)
  have b: "pipeGain ((pipeTick ^^ 5) (samplePipe\<lparr> scored := True \<rparr>)) = 0"
    using score_once_per_pipe [where q = "samplePipe\<lparr> scored := True \<rparr>" and k = 5,
        THEN conjunct2, THEN conjunct2, THEN conjunct2, THEN conjunct1]
    by simp
  have c1: "pipeGain ((pipeTick ^^ 148) (createPipe 0)) = 0"
    using score_once_per_pipe [where p = "createPipe 0" and k = 148,
        THEN conjunct2, THEN conjunct2, THEN conjunct2, THEN conjunct2, THEN conjunct1,
        THEN mp, OF f, THEN conjunct1]
    by (simp add: createPipe_fresh CFG_defs)
  have c2: "pipeGain ((pipeTick ^^ 149) (createPipe 0)) = 1"
    using score_once_per_pipe [where p = "createPipe 0" and k = 149,
        THEN conjunct2, THEN conjunct2, THEN conjunct2, THEN conjunct2, THEN conjunct1,
        THEN mp, OF f, THEN conjunct1]
    by (simp add: createPipe_fresh CFG_defs)
  have c3: "pipeGain ((pipeTick ^^ 150) (createPipe 0)) = 0"
    using score_once_per_pipe [where p = "createPipe 0" and k = 150,
        THEN conjunct2, THEN conjunct2, THEN conjunct2, THEN conjunct2, THEN conjunct1,
        THEN mp, OF f, THEN conjunct1]
    by (simp add: createPipe_fresh CFG_defs)
  have d: "(\<Sum>j<192. pipeGain ((pipeTick ^^ j) (createPipe 0))) = 1"
    using score_once_per_pipe [where p = "createPipe 0" and n = 192,
        THEN conjunct2, THEN conjunct2, THEN conjunct2, THEN conjunct2, THEN conjunct1,
        THEN mp, OF f, THEN conjunct2]
    by (simp add: createPipe_fresh CFG_defs)
  from p a b c1 c2 c3 d f show ?thesis by simp
qed

subsection \<open>Gap height\<close>

lemma createPipe_gap:
  "gapTop (createPipe rnd) = jsAdd 60 (jsMul rnd 252)"
  "gapBot (createPipe rnd) = jsAdd (gapTop (createPipe rnd)) PIPE_GAP"
  by (simp_all add: createPipe_def Let_def createPipe_constants)

lemma createPipe_ok:
  assumes "0 \<le> rnd" "rnd < 1"
  shows "60 \<le> gapTop (createPipe rnd)" "gapTop (createPipe rnd) \<le> 312"
    "gapBot (createPipe rnd) \<le> 460"
    "\<bar>gapBot (createPipe rnd) - gapTop (createPipe rnd) - 148\<bar> \<le> 1 / 2 ^ 45"
proof -
  define t where "t = fl (rnd * 252)"
  define g where "g = fl (60 + t)"
  have gt: "gapTop (createPipe rnd) = g"
    by (simp add: createPipe_gap jsAdd_def jsMul_def g_def t_def)
  have gb: "gapBot (createPipe rnd) = fl (g + 148)"
    by (simp add: createPipe_gap(2) gt jsAdd_def PIPE_GAP_def)
  have t0: "0 \<le> t" unfolding t_def using assms(1) by (intro fl_nonneg) simp
  have t1: "t \<le> 252"
  proof (cases "rnd = 0")
    case True
    then show ?thesis by (simp add: t_def fl_0)
  next
    case False
    with assms have "0 < rnd * 252" "rnd * 252 \<le> 252" by simp_all
    then show ?thesis unfolding t_def by (intro fl_le doubles_of_the_game)
  qed
  have g0: "60 \<le> g" unfolding g_def using t0 by (intro fl_ge doubles_of_the_game) simp_all
  have g1: "g \<le> 312" unfolding g_def using t0 t1 by (intro fl_le doubles_of_the_game) simp_all
  have b1: "fl (g + 148) \<le> 460" using g0 g1 by (intro fl_le doubles_of_the_game) simp_all
  have pos: "0 < g + 148" using g0 by simp
  have "g + 148 < 2 powi 9" using g1 by simp
  then have "ulp (g + 148) \<le> 2 powi (9 - 53)" using pos by (intro ulp_le) simp_all
  then have "ulp (g + 148) / 2 \<le> 1 / 2 ^ 45" by (simp add: power_int_minus_divide)
  with fl_error [of "g + 148"] have err: "\<bar>fl (g + 148) - (g + 148)\<bar> \<le> 1 / 2 ^ 45"
    by linarith
  show "60 \<le> gapTop (createPipe rnd)" "gapTop (createPipe rnd) \<le> 312"
    using g0 g1 by (simp_all add: gt)
  show "gapBot (createPipe rnd) \<le> 460" using b1 by (simp add: gb)
  have "fl (g + 148) - g - 148 = fl (g + 148) - (g + 148)" by simp
  with err show "\<bar>gapBot (createPipe rnd) - gapTop (createPipe rnd) - 148\<bar> \<le> 1 / 2 ^ 45"
    by (simp only: gb gt)
qed

lemma pipeTick_ok: "pipeOk (pipeTick p) = pipeOk p"
  by (simp add: pipeOk_def pipeTick_fields)

lemma fold_resetGame_pipes:
  "set (pipes (fold (\<lambda>t'. resetGame t) xs s)) \<subseteq> set (pipes s)"
proof (induction xs arbitrary: s)
  case Nil
  then show ?case by simp
next
  case (Cons x xs)
  have "set (pipes (fold (\<lambda>t'. resetGame t) xs (resetGame t s))) \<subseteq> set (pipes (resetGame t s))"
    by (rule Cons.IH)
  moreover have "pipes (resetGame t s) = []" by (simp add: resetGame_def)
  ultimately show ?case by (simp only: fold_simps set_simps) simp
qed

lemma runTimers_pipes: "set (pipes (runTimers t s)) \<subseteq> set (pipes s)"
  using fold_resetGame_pipes [of t _ s] by (simp add: runTimers_def)

lemma handleFlap_pipes: "pipes (handleFlap now s) = pipes s"
  by (simp add: handleFlap_def beginGame_def)

lemma samplePipe_ok: "pipeOk samplePipe"
  by (simp add: pipeOk_def samplePipe_fields CFG_defs)

text \<open>
  Claim C9 fails on the code, which computes in doubles. With \<open>Math.random()\<close> returning
  \<open>0.2\<close> (the double nearest to it), \<open>gapTop\<close> is the double nearest to \<open>110.4\<close> and
  \<open>gapTop + PIPE_GAP\<close> lies halfway between two doubles; \<open>gapBot\<close> is the lower of the two,
  and \<open>gapBot - gapTop\<close> is \<open>PIPE_GAP - 2\<^sup>-\<^sup>4\<^sup>5\<close>, not \<open>PIPE_GAP\<close>.
\<close>

theorem gap_differs_from_constant:
  "fl (2 / 10) = sampleRnd \<and> 0 \<le> sampleRnd \<and> sampleRnd < 1 \<and>
   gapTop (createPipe sampleRnd) = 3884354678607053 / 35184372088832 \<and>
   gapBot (createPipe sampleRnd) = 2272910436938547 / 8796093022208 \<and>
   gapBot (createPipe sampleRnd) - gapTop (createPipe sampleRnd) = PIPE_GAP - 1 / 2 ^ 45 \<and>
   gapBot (createPipe sampleRnd) - gapTop (createPipe sampleRnd) \<noteq> PIPE_GAP"
proof -
  have r: "fl (2 / 10) = sampleRnd"
  proof -
    have "fl (2 / 10) = of_int 7205759403792794 * 2 powi (- 3 - 52)"
      by (rule fl_near) simp_all
    then show ?thesis by (simp add: sampleRnd_def)
  qed
  have t: "jsMul sampleRnd 252 = 1773292353277133 / 35184372088832"
  proof -
    have "fl (sampleRnd * 252) = of_int 7093169413108532 * 2 powi (5 - 52)"
      unfolding sampleRnd_def by (rule fl_near) simp_all
    then show ?thesis by (simp add: jsMul_def)
  qed
  have g: "jsAdd 60 (1773292353277133 / 35184372088832) = 3884354678607053 / 35184372088832"
  proof -
    have "fl (60 + 1773292353277133 / 35184372088832) = of_int 7768709357214106 * 2 powi (6 - 52)"
      by (rule fl_near) simp_all
    then show ?thesis by (simp add: jsAdd_def)
  qed
  have b: "jsAdd (3884354678607053 / 35184372088832) PIPE_GAP = 2272910436938547 / 8796093022208"
  proof -
    have "fl (3884354678607053 / 35184372088832 + 148) = of_int 4545820873877094 * 2 powi (8 - 52)"
      by (rule fl_tie) simp_all
    then show ?thesis by (simp add: jsAdd_def PIPE_GAP_def)
  qed
  have gt: "gapTop (createPipe sampleRnd) = 3884354678607053 / 35184372088832"
    by (simp add: createPipe_gap t g)
  have gb: "gapBot (createPipe sampleRnd) = 2272910436938547 / 8796093022208"
    by (simp add: createPipe_gap(2) gt b)
  have d: "gapBot (createPipe sampleRnd) - gapTop (createPipe sampleRnd) = PIPE_GAP - 1 / 2 ^ 45"
    by (simp add: gt gb PIPE_GAP_def)
  have n: "gapBot (createPipe sampleRnd) - gapTop (createPipe sampleRnd) \<noteq> PIPE_GAP"
    by (simp add: d)
  have s: "0 \<le> sampleRnd" "sampleRnd < 1" by (simp_all add: sampleRnd_def)
  from r s gt gb d n show ?thesis by blast
qed

text \<open>
  Claim C9 as amended. \<open>PIPE_GAP = 148\<close>. A pipe made by \<open>createPipe\<close> (with
  \<open>0 \<le> rnd < 1\<close>) has \<open>gapBot\<close> equal to \<open>gapTop + PIPE_GAP\<close> rounded to a double, so that
  \<open>gapBot - gapTop\<close> differs from \<open>PIPE_GAP\<close> by at most \<open>2\<^sup>-\<^sup>4\<^sup>5\<close>; \<open>gapTop\<close> lies in
  \<open>[60, GROUND_Y - PIPE_GAP - 60] = [60, 312]\<close> and \<open>gapBot\<close> is at most \<open>GROUND_Y - 60\<close>. A
  tick changes neither \<open>gapTop\<close> nor \<open>gapBot\<close> of a pipe, however many ticks follow. So if
  every pipe of the list is well formed, every pipe of the list after a tick is (the list
  then holds the old pipes and the spawned one, each moved and possibly flagged, less the
  removed ones), and flaps and the restart timer keep that too; the list is empty at
  boot.
\<close>

theorem gap_height_rounded:
  "PIPE_GAP = 148 \<and> GROUND_Y - PIPE_GAP - 60 = 312 \<and>
   (0 \<le> rnd \<and> rnd < 1 \<longrightarrow>
      gapBot (createPipe rnd) = jsAdd (gapTop (createPipe rnd)) PIPE_GAP \<and>
      \<bar>gapBot (createPipe rnd) - gapTop (createPipe rnd) - PIPE_GAP\<bar> \<le> 1 / 2 ^ 45 \<and>
      60 \<le> gapTop (createPipe rnd) \<and> gapTop (createPipe rnd) \<le> GROUND_Y - PIPE_GAP - 60 \<and>
      gapBot (createPipe rnd) \<le> GROUND_Y - 60) \<and>
   gapTop (pipeTick p) = gapTop p \<and> gapBot (pipeTick p) = gapBot p \<and>
   gapTop ((pipeTick ^^ k) p) = gapTop p \<and> gapBot ((pipeTick ^^ k) p) = gapBot p \<and>
   (phase s = PLAYING \<and> 0 \<le> rnd \<and> rnd < 1 \<and> (\<forall>q\<in>set (pipes s). pipeOk q) \<longrightarrow>
      (\<exists>s'. update dt now rnd s = Inr s' \<and>
         pipes s' = filter (\<lambda>q. \<not> offScreen q) (map pipeTick
           (pipes s @ (if now - lastPipeTime s \<ge> PIPE_INTERVAL then [createPipe rnd] else []))) \<and>
         (\<forall>q\<in>set (pipes s'). pipeOk q))) \<and>
   ((\<forall>q\<in>set (pipes s). pipeOk q) \<longrightarrow>
      (\<forall>q\<in>set (pipes (handleFlap now s)). pipeOk q) \<and>
      (\<forall>q\<in>set (pipes (runTimers now s)). pipeOk q)) \<and>
   pipes (initState st now) = []"
proof (intro conjI impI)
  show "PIPE_GAP = 148" by (simp add: PIPE_GAP_def)
  show "GROUND_Y - PIPE_GAP - 60 = 312" by (simp add: CFG_defs)
  show "gapTop (pipeTick p) = gapTop p" "gapBot (pipeTick p) = gapBot p"
    by (simp_all add: pipeTick_fields)
  show "gapTop ((pipeTick ^^ k) p) = gapTop p" "gapBot ((pipeTick ^^ k) p) = gapBot p"
    by (simp_all add: pipeTick_iter_fields)
  show "pipes (initState st now) = []" by (simp add: initState_def)
next
  assume r: "0 \<le> rnd \<and> rnd < 1"
  note ok = createPipe_ok [of rnd]
  show "gapBot (createPipe rnd) = jsAdd (gapTop (createPipe rnd)) PIPE_GAP"
    by (rule createPipe_gap)
  from r ok show "\<bar>gapBot (createPipe rnd) - gapTop (createPipe rnd) - PIPE_GAP\<bar> \<le> 1 / 2 ^ 45"
    and "60 \<le> gapTop (createPipe rnd)"
    and "gapTop (createPipe rnd) \<le> GROUND_Y - PIPE_GAP - 60"
    and "gapBot (createPipe rnd) \<le> GROUND_Y - 60"
    by (simp_all add: CFG_defs)
next
  assume a: "phase s = PLAYING \<and> 0 \<le> rnd \<and> rnd < 1 \<and> (\<forall>q\<in>set (pipes s). pipeOk q)"
  then have p: "phase s = PLAYING" and ok: "pipeOk (createPipe rnd)"
    and inv: "\<forall>q\<in>set (pipes s). pipeOk q"
    using createPipe_ok [of rnd] by (simp_all add: pipeOk_def CFG_defs)
  from update_pipes_score2 [OF p, of dt now rnd] obtain s' where
    u: "update dt now rnd s = Inr s'" and
    ps: "pipes s' = filter (\<lambda>q. \<not> offScreen q) (map pipeTick
        (pipes s @ (if now - lastPipeTime s \<ge> PIPE_INTERVAL then [createPipe rnd] else [])))"
    by blast
  have "\<forall>q\<in>set (pipes s'). pipeOk q"
    unfolding ps using ok inv by (auto simp add: pipeTick_ok)
  with u ps show "\<exists>s'. update dt now rnd s = Inr s' \<and>
         pipes s' = filter (\<lambda>q. \<not> offScreen q) (map pipeTick
           (pipes s @ (if now - lastPipeTime s \<ge> PIPE_INTERVAL then [createPipe rnd] else []))) \<and>
         (\<forall>q\<in>set (pipes s'). pipeOk q)"
    by blast
next
  assume inv: "\<forall>q\<in>set (pipes s). pipeOk q"
  then show "\<forall>q\<in>set (pipes (handleFlap now s)). pipeOk q"
    by (simp add: handleFlap_pipes)
  from inv show "\<forall>q\<in>set (pipes (runTimers now s)). pipeOk q"
    using runTimers_pipes [of now s] by blast
qed

theorem gap_height_rounded_witness:
  "(0 :: rat) \<le> 1 / 2 \<and> (1 / 2 :: rat) < 1 \<and>
   gapTop (createPipe (1 / 2)) = 186 \<and> gapBot (createPipe (1 / 2)) = 334 \<and>
   gapBot (createPipe (1 / 2)) = jsAdd (gapTop (createPipe (1 / 2))) PIPE_GAP \<and>
   \<bar>gapBot (createPipe (1 / 2)) - gapTop (createPipe (1 / 2)) - PIPE_GAP\<bar> \<le> 1 / 2 ^ 45 \<and>
   phase (samplePlaying\<lparr> pipes := [samplePipe] \<rparr>) = PLAYING \<and>
   pipes (samplePlaying\<lparr> pipes := [samplePipe] \<rparr>) = [samplePipe] \<and>
   pipeOk samplePipe \<and>
   (\<exists>s'. update 16 3000 (1 / 2) (samplePlaying\<lparr> pipes := [samplePipe] \<rparr>) = Inr s' \<and>
         length (pipes s') = 2 \<and> (\<forall>q\<in>set (pipes s'). pipeOk q))"
proof -
  let ?S = "samplePlaying\<lparr> pipes := [samplePipe] \<rparr>"
  have r: "(0 :: rat) \<le> 1 / 2 \<and> (1 / 2 :: rat) < 1" by simp
  have g: "gapTop (createPipe (1 / 2)) = 186" "gapBot (createPipe (1 / 2)) = 334"
    using samplePipe_fields(3,4) by (simp_all add: samplePipe_def)
  have p: "phase ?S = PLAYING" by (simp add: samplePlaying_fields)
  have inv: "\<forall>q\<in>set (pipes ?S). pipeOk q" by (simp add: samplePipe_ok)
  have h: "phase ?S = PLAYING \<and> 0 \<le> (1 / 2 :: rat) \<and> (1 / 2 :: rat) < 1 \<and>
      (\<forall>q\<in>set (pipes ?S). pipeOk q)"
    using p inv by simp
  note t = gap_height_rounded [where s = ?S and rnd = "1 / 2" and dt = 16 and now = 3000]
  note t3 = t [THEN conjunct2, THEN conjunct2, THEN conjunct1, THEN mp, OF r]
  note t8 = t [THEN conjunct2, THEN conjunct2, THEN conjunct2, THEN conjunct2, THEN conjunct2,
      THEN conjunct2, THEN conjunct2, THEN conjunct1, THEN mp, OF h]
  from t8 obtain s' where u: "update 16 3000 (1 / 2) ?S = Inr s'"
    and ps: "pipes s' = filter (\<lambda>q. \<not> offScreen q) (map pipeTick
           (pipes ?S @ (if 3000 - lastPipeTime ?S \<ge> PIPE_INTERVAL then [createPipe (1 / 2)] else [])))"
    and ok: "\<forall>q\<in>set (pipes s'). pipeOk q"
    by blast
  have "length (pipes s') = 2"
    unfolding ps
    by (simp add: samplePlaying_fields PIPE_INTERVAL_def offScreen_def pipeTick_fields
        samplePipe_fields createPipe_fresh PIPE_SPEED_def PIPE_W_def)
  with u ok have e: "\<exists>s'. update 16 3000 (1 / 2) ?S = Inr s' \<and>
         length (pipes s') = 2 \<and> (\<forall>q\<in>set (pipes s'). pipeOk q)"
    by blast
  from t3 have d: "gapBot (createPipe (1 / 2)) = jsAdd (gapTop (createPipe (1 / 2))) PIPE_GAP"
    "\<bar>gapBot (createPipe (1 / 2)) - gapTop (createPipe (1 / 2)) - PIPE_GAP\<bar> \<le> 1 / 2 ^ 45"
    by blast+
  have l: "pipes ?S = [samplePipe]" by simp
  from r g d p l samplePipe_ok e show ?thesis by blast
qed

subsection \<open>Retired pipes\<close>

lemma moveAndScore_nth:
  "i < length ps \<Longrightarrow> fst (moveAndScore i (ps, sc)) ! i = pipeTick (ps ! i)"
  by (simp add: moveAndScore_at)

lemma offScreen_scored: "offScreen (pipeTick p) \<Longrightarrow> scored (pipeTick p)"
  by (simp add: offScreen_def pipeTick_fields CFG_defs)

text \<open>
  Claim C10. In an iteration of the pipe loop, if the removal statement takes the pipe
  out of the list, that pipe is off screen and its \<open>scored\<close> flag is true at that moment:
  the removal threshold \<open>-20\<close> is left of \<open>BIRD_X\<close> and the score test runs first, in the
  same iteration. The loop as a whole keeps exactly the moved pipes that are not off
  screen. A pipe that starts unflagged and not yet past the bird has added exactly 1 to
  the score by the tick that finds it off screen.
\<close>

theorem removed_pipe_was_scored:
  "(i < length ps \<and>
    fst (removeOffScreen i (moveAndScore i (ps, sc))) \<noteq> fst (moveAndScore i (ps, sc)) \<longrightarrow>
      offScreen (fst (moveAndScore i (ps, sc)) ! i) \<and>
      scored (fst (moveAndScore i (ps, sc)) ! i)) \<and>
   (offScreen (pipeTick p) \<longrightarrow> scored (pipeTick p)) \<and>
   pipeLoop (length ps) (ps, sc) =
     Inr (filter (\<lambda>q. \<not> offScreen q) (map pipeTick ps), sc + sum_list (map pipeGain ps)) \<and>
   (\<not> scored q \<and> \<not> pipe_x q + PIPE_W < BIRD_X \<and> offScreen ((pipeTick ^^ n) q) \<longrightarrow>
      (\<Sum>j<n. pipeGain ((pipeTick ^^ j) q)) = 1) \<and>
   (- 20 :: rat) < BIRD_X"
proof (intro conjI impI)
  assume a: "i < length ps \<and>
    fst (removeOffScreen i (moveAndScore i (ps, sc))) \<noteq> fst (moveAndScore i (ps, sc))"
  then have i: "i < length ps" by simp
  have off: "offScreen (fst (moveAndScore i (ps, sc)) ! i)"
  proof (rule ccontr)
    assume "\<not> offScreen (fst (moveAndScore i (ps, sc)) ! i)"
    then have "fst (removeOffScreen i (moveAndScore i (ps, sc))) = fst (moveAndScore i (ps, sc))"
      by (simp add: removeOffScreen_def Let_def)
    with a show False by simp
  qed
  then show "offScreen (fst (moveAndScore i (ps, sc)) ! i)" .
  from off show "scored (fst (moveAndScore i (ps, sc)) ! i)"
    by (simp add: moveAndScore_nth [OF i] offScreen_scored)
next
  assume "offScreen (pipeTick p)"
  then show "scored (pipeTick p)" by (rule offScreen_scored)
next
  show "pipeLoop (length ps) (ps, sc) =
     Inr (filter (\<lambda>q. \<not> offScreen q) (map pipeTick ps), sc + sum_list (map pipeGain ps))"
    by (rule pipeLoop_all)
  show "(- 20 :: rat) < BIRD_X" by (simp add: BIRD_X_def)
next
  assume a: "\<not> scored q \<and> \<not> pipe_x q + PIPE_W < BIRD_X \<and> offScreen ((pipeTick ^^ n) q)"
  then have "pipe_x q - of_nat n * PIPE_SPEED + PIPE_W < - 20"
    by (simp add: offScreen_def pipeTick_iter_fields)
  then have "pipe_x q - of_nat n * PIPE_SPEED + PIPE_W < BIRD_X"
    by (simp add: BIRD_X_def)
  with a show "(\<Sum>j<n. pipeGain ((pipeTick ^^ j) q)) = 1"
    using pipeGain_total [of q n] by simp
qed

theorem removed_pipe_was_scored_witness:
  "(0 :: nat) < length [samplePipe\<lparr> pipe_x := - 77 \<rparr>] \<and>
   fst (removeOffScreen 0 (moveAndScore 0 ([samplePipe\<lparr> pipe_x := - 77 \<rparr>], 0)))
     \<noteq> fst (moveAndScore 0 ([samplePipe\<lparr> pipe_x := - 77 \<rparr>], 0)) \<and>
   scored (fst (moveAndScore 0 ([samplePipe\<lparr> pipe_x := - 77 \<rparr>], 0)) ! 0) \<and>
   pipeLoop 1 ([samplePipe\<lparr> pipe_x := - 77 \<rparr>], 0) = Inr ([], 1) \<and>
   \<not> scored (createPipe 0) \<and> \<not> pipe_x (createPipe 0) + PIPE_W < BIRD_X \<and>
   offScreen ((pipeTick ^^ 192) (createPipe 0)) \<and>
   (\<Sum>j<192. pipeGain ((pipeTick ^^ j) (createPipe 0))) = 1"
proof -
  let ?P = "samplePipe\<lparr> pipe_x := - 77 \<rparr>"
  have tk: "pipeTick ?P = ?P\<lparr> pipe_x := - 79.6, scored := True \<rparr>"
    by (simp add: pipeTick_def movePipe_def shouldScore_def Let_def samplePipe_fields CFG_defs)
  have gn: "pipeGain ?P = 1"
    by (simp add: pipeGain_def movePipe_def shouldScore_def samplePipe_fields CFG_defs)
  have ms: "moveAndScore 0 ([?P], 0) = ([pipeTick ?P], 1)"
    by (simp add: moveAndScore_at gn)
  have off: "offScreen (pipeTick ?P)"
    by (simp add: tk offScreen_def CFG_defs)
  have a: "(0 :: nat) < length [?P] \<and>
      fst (removeOffScreen 0 (moveAndScore 0 ([?P], 0))) \<noteq> fst (moveAndScore 0 ([?P], 0))"
    by (simp add: ms removeOffScreen_def Let_def off splice1_def)
  have f: "\<not> scored (createPipe 0) \<and> \<not> pipe_x (createPipe 0) + PIPE_W < BIRD_X \<and>
      offScreen ((pipeTick ^^ 192) (createPipe 0))"
    by (simp add: createPipe_fresh offScreen_def pipeTick_iter_fields CFG_defs)
  note t = removed_pipe_was_scored [where i = 0 and ps = "[?P]" and sc = 0
      and q = "createPipe 0" and n = 192]
  from t [THEN conjunct1, THEN mp, OF a]
  have b: "scored (fst (moveAndScore 0 ([?P], 0)) ! 0)" by blast
  from t [THEN conjunct2, THEN conjunct2, THEN conjunct1]
  have c: "pipeLoop 1 ([?P], 0) = Inr ([], 1)"
    by (simp add: off gn)
  from t [THEN conjunct2, THEN conjunct2, THEN conjunct2, THEN conjunct1, THEN mp, OF f]
  have d: "(\<Sum>j<192. pipeGain ((pipeTick ^^ j) (createPipe 0))) = 1" .
  from a b c d f show ?thesis by blast
qed

end
